theory Spec2Isabelle
  imports Main "HOL-Library.Code_Target_Nat"
begin

section \<open>JavaScript values used by the media organizer\<close>

text \<open>
  The organizer is a Node.js program.  This theory embeds the parts of
  \<^verbatim>\<open>PhotoOrganizer\<close> (organizer) and \<^verbatim>\<open>BatchProcessor\<close> (batch processor) that decide how
  files are fingerprinted, deduplicated, named and merged.  Library calls
  (\<^verbatim>\<open>fs-extra\<close>, \<^verbatim>\<open>path\<close>, \<^verbatim>\<open>exifr\<close>, \<^verbatim>\<open>crypto\<close>) are modelled by what they return.
\<close>

subsection \<open>Numbers in template literals, padStart, digits\<close>

definition digit_char :: "nat \<Rightarrow> char" where
  "digit_char d = ''0123456789'' ! d"

text \<open>\<^verbatim>\<open>`${n}`\<close> and \<^verbatim>\<open>String(n)\<close> for a non-negative integer \<open>n\<close>: its decimal digits.\<close>

fun numberToString :: "nat \<Rightarrow> string" where
  "numberToString n =
     (if n < 10 then [digit_char n]
      else numberToString (n div 10) @ [digit_char (n mod 10)])"

declare numberToString.simps [simp del]

text \<open>\<^verbatim>\<open>s.padStart(n, c)\<close> for a one-character pad string.\<close>

definition padStart :: "nat \<Rightarrow> char \<Rightarrow> string \<Rightarrow> string" where
  "padStart n c s = replicate (n - length s) c @ s"

text \<open>The regular-expression class \<^verbatim>\<open>\d\<close>: the ASCII digits.\<close>

definition isDigit :: "char \<Rightarrow> bool" where
  "isDigit c = (c \<in> set ''0123456789'')"

definition digit_val :: "char \<Rightarrow> nat" where
  "digit_val c = of_char c - 48"

text \<open>The value of a string of decimal digits (leading zeros allowed).\<close>

definition digits_val :: "string \<Rightarrow> nat" where
  "digits_val s = foldl (\<lambda>a c. 10 * a + digit_val c) 0 s"

subsection \<open>JSON documents\<close>

text \<open>
  What \<^verbatim>\<open>JSON.parse\<close> can return.  Numbers are restricted to integers: the only
  numbers the program stores are modification times in milliseconds.
\<close>

datatype json =
    JNull
  | JBool bool
  | JNum int
  | JStr string
  | JArr "json list"
  | JObj "(string \<times> json) list"

text \<open>
  A property read \<^verbatim>\<open>o.k\<close>, with \<open>None\<close> for \<^verbatim>\<open>undefined\<close>.  Reading a property
  of \<^verbatim>\<open>null\<close> throws a TypeError; of any other value that has no such property
  it yields \<^verbatim>\<open>undefined\<close>.  When a JSON text repeats a key, \<^verbatim>\<open>JSON.parse\<close> keeps the last.
\<close>

datatype error =
    TypeError
  | ENOENT
  | ReadError
  | SyntaxError
  | TooManyConflicts
  | DirectoryDoesNotExist

fun getProp :: "json \<Rightarrow> string \<Rightarrow> error + json option" where
  "getProp JNull k = Inl TypeError"
| "getProp (JObj kvs) k = Inr (map_of (rev kvs) k)"
| "getProp j k = Inr None"

text \<open>JavaScript truthiness of a value that may be \<^verbatim>\<open>undefined\<close>.\<close>

fun truthy :: "json option \<Rightarrow> bool" where
  "truthy None = False"
| "truthy (Some JNull) = False"
| "truthy (Some (JBool b)) = b"
| "truthy (Some (JNum n)) = (n \<noteq> 0)"
| "truthy (Some (JStr s)) = (s \<noteq> [])"
| "truthy (Some (JArr xs)) = True"
| "truthy (Some (JObj kvs)) = True"

text \<open>\<^verbatim>\<open>a || b\<close>\<close>

definition js_or :: "json option \<Rightarrow> json option \<Rightarrow> json option" where
  "js_or a b = (if truthy a then a else b)"

subsection \<open>The built-in Map: insertion-ordered, one entry per key\<close>

fun map_set :: "'k \<Rightarrow> 'v \<Rightarrow> ('k \<times> 'v) list \<Rightarrow> ('k \<times> 'v) list" where
  "map_set k v [] = [(k, v)]"
| "map_set k v ((k', v') # m) =
     (if k' = k then (k, v) # m else (k', v') # map_set k v m)"

definition map_get :: "'k \<Rightarrow> ('k \<times> 'v) list \<Rightarrow> 'v option" where
  "map_get k m = map_of m k"

definition map_has :: "'k \<Rightarrow> ('k \<times> 'v) list \<Rightarrow> bool" where
  "map_has k m = (case map_of m k of None \<Rightarrow> False | Some v \<Rightarrow> True)"

definition map_delete :: "'k \<Rightarrow> ('k \<times> 'v) list \<Rightarrow> ('k \<times> 'v) list" where
  "map_delete k m = filter (\<lambda>kv. fst kv \<noteq> k) m"

definition map_keys :: "('k \<times> 'v) list \<Rightarrow> 'k list" where
  "map_keys m = map fst m"

definition map_values :: "('k \<times> 'v) list \<Rightarrow> 'v list" where
  "map_values m = map snd m"

subsection \<open>Paths\<close>

text \<open>
  A path is its directory (a list of segments) and its file name, so that
  \<^verbatim>\<open>path.dirname\<close>, \<^verbatim>\<open>path.basename\<close> and \<^verbatim>\<open>path.join(dir, name)\<close> are the two
  selectors and the constructor.
\<close>

datatype path = Path (dirname: "string list") (basename: string)

text \<open>
  \<^verbatim>\<open>path.extname\<close>: from the last dot of the file name to its end; empty when
  there is no dot, when the only dot is the first character, and for \<^verbatim>\<open>..\<close>.
\<close>

definition extname :: "path \<Rightarrow> string" where
  "extname p =
     (let n = basename p;
          ext = CHR ''.'' # rev (takeWhile (\<lambda>c. c \<noteq> CHR ''.'') (rev n))
      in if CHR ''.'' \<notin> set n \<or> length ext = length n \<or> n = ''..'' then [] else ext)"

text \<open>\<^verbatim>\<open>path.basename(p, path.extname(p))\<close>: the file name without its extension.\<close>

definition basename_noext :: "path \<Rightarrow> string" where
  "basename_noext p = take (length (basename p) - length (extname p)) (basename p)"

text \<open>\<^verbatim>\<open>s.endsWith(t)\<close>\<close>

definition endsWith :: "string \<Rightarrow> string \<Rightarrow> bool" where
  "endsWith s t = (length t \<le> length s \<and> drop (length s - length t) s = t)"

subsection \<open>Files and the file system\<close>

text \<open>What \<^verbatim>\<open>exifr.parse\<close> does on a file: it throws, returns nothing, or returns tags.\<close>

record exif_data =
  Make :: "json option"
  Model :: "json option"
  DateTime :: "json option"
  DateTimeOriginal :: "json option"
  CreateDate :: "json option"
  Orientation :: "json option"
  ExposureTime :: "json option"
  FNumber :: "json option"
  ISO :: "json option"
  FocalLength :: "json option"
  Flash :: "json option"
  WhiteBalance :: "json option"
  ImageWidth :: "json option"
  ExifImageWidth :: "json option"
  ImageHeight :: "json option"
  ExifImageHeight :: "json option"

datatype exif_result = ParseThrows | ParseNothing | ParseData exif_data

text \<open>What \<^verbatim>\<open>fs.readJson\<close> does on a file: the read fails, the text is not JSON, or a document.\<close>

datatype json_read = ReadFails | ParseFails | Parsed json

text \<open>
  A regular file as the program sees it: \<^verbatim>\<open>stat.size\<close>, \<^verbatim>\<open>stat.mtime.getTime()\<close>,
  and the outcomes of \<^verbatim>\<open>exifr.parse\<close> and \<^verbatim>\<open>fs.readJson\<close> on it.
\<close>

record fileinfo =
  fsize :: nat
  mtime :: int
  exifr_parse :: exif_result
  readJson :: json_read

text \<open>
  The file system: the regular files, in the order a directory walk meets them.
  \<^verbatim>\<open>fs.stat\<close> throws on a path that is not there.
\<close>

type_synonym filesystem = "(path \<times> fileinfo) list"

definition stat :: "filesystem \<Rightarrow> path \<Rightarrow> error + fileinfo" where
  "stat fs p = (case map_of fs p of None \<Rightarrow> Inl ENOENT | Some f \<Rightarrow> Inr f)"

definition pathExists :: "filesystem \<Rightarrow> path \<Rightarrow> bool" where
  "pathExists fs p = (case map_of fs p of None \<Rightarrow> False | Some f \<Rightarrow> True)"

section \<open>Fingerprints\<close>

subsection \<open>createFileFingerprint\<close>

definition relevantExif :: "exif_data \<Rightarrow> (string \<times> json option) list" where
  "relevantExif exifData =
     [(''make'', Make exifData),
      (''model'', Model exifData),
      (''dateTime'', js_or (js_or (DateTime exifData) (DateTimeOriginal exifData)) (CreateDate exifData)),
      (''orientation'', Orientation exifData),
      (''exposureTime'', ExposureTime exifData),
      (''fNumber'', FNumber exifData),
      (''iso'', ISO exifData),
      (''focalLength'', FocalLength exifData),
      (''flash'', Flash exifData),
      (''whiteBalance'', WhiteBalance exifData),
      (''imageWidth'', js_or (ImageWidth exifData) (ExifImageWidth exifData)),
      (''imageHeight'', js_or (ImageHeight exifData) (ExifImageHeight exifData))]"

text \<open>\<^verbatim>\<open>Object.fromEntries(Object.entries(relevantExif).filter(([_, value]) => value !== undefined))\<close>\<close>

definition cleanExif :: "(string \<times> json option) list \<Rightarrow> (string \<times> json) list" where
  "cleanExif kvs = concat (map (\<lambda>(k, v). case v of None \<Rightarrow> [] | Some j \<Rightarrow> [(k, j)]) kvs)"

text \<open>
  The parameter \<open>md5\<close> stands for
  \<^verbatim>\<open>crypto.createHash('md5').update(JSON.stringify(cleanExif)).digest('hex')\<close>.
  A failing \<^verbatim>\<open>fs.stat\<close> is the only exception that leaves the function.
\<close>

definition createFileFingerprint ::
  "((string \<times> json) list \<Rightarrow> string) \<Rightarrow> filesystem \<Rightarrow> path \<Rightarrow> error + string" where
  "createFileFingerprint md5 fs filePath =
     (case stat fs filePath of
        Inl e \<Rightarrow> Inl e
      | Inr stats \<Rightarrow>
          let fileSize = fsize stats;
              exifHash =
                (case exifr_parse stats of
                   ParseThrows \<Rightarrow> ''no-exif''
                 | ParseNothing \<Rightarrow> ''no-exif''
                 | ParseData exifData \<Rightarrow> md5 (cleanExif (relevantExif exifData)))
          in Inr (numberToString fileSize @ ''-'' @ exifHash))"

subsection \<open>Dates read from file names\<close>

text \<open>
  \<^verbatim>\<open>parseInt(s)\<close> without a radix: leading white space is skipped, a sign is read,
  the prefix \<^verbatim>\<open>0x\<close> selects base 16, and the longest run of digits is the value;
  \<open>None\<close> is \<^verbatim>\<open>NaN\<close>.  A character of a string is a code unit below 256; of the
  white space and line terminators that \<^verbatim>\<open>parseInt\<close> skips, those are the space, tab,
  line feed, vertical tab, form feed, carriage return and the no-break space U+00A0.
\<close>

definition isSpace :: "char \<Rightarrow> bool" where
  "isSpace c = (c \<in> set [CHR '' '', CHR 0x09, CHR 0x0A, CHR 0x0B, CHR 0x0C, CHR 0x0D, CHR 0xA0])"

definition hex_val :: "char \<Rightarrow> nat option" where
  "hex_val c = map_of (zip ''0123456789abcdefABCDEF''
                  [0, 1, 2, 3, 4, 5, 6, 7, 8, 9, 10, 11, 12, 13, 14, 15, 10, 11, 12, 13, 14, 15]) c"

definition parseInt :: "string \<Rightarrow> int option" where
  "parseInt s =
     (let t = dropWhile isSpace s;
          neg = (t \<noteq> [] \<and> hd t = CHR ''-'');
          u = (if t \<noteq> [] \<and> (hd t = CHR ''-'' \<or> hd t = CHR ''+'') then tl t else t);
          hex = (take 2 u = ''0x'' \<or> take 2 u = ''0X'');
          ds = (if hex then takeWhile (\<lambda>c. hex_val c \<noteq> None) (drop 2 u)
                else takeWhile isDigit u);
          v = (if hex then foldl (\<lambda>a c. 16 * a + the (hex_val c)) 0 ds else digits_val ds)
      in if ds = [] then None else Some (if neg then - int v else int v))"

text \<open>\<^verbatim>\<open>a < b\<close> and \<^verbatim>\<open>a > b\<close> on numbers: false as soon as one side is \<^verbatim>\<open>NaN\<close>.\<close>

definition js_lt :: "int option \<Rightarrow> int \<Rightarrow> bool" where
  "js_lt a b = (case a of None \<Rightarrow> False | Some x \<Rightarrow> x < b)"

definition js_gt :: "int option \<Rightarrow> int \<Rightarrow> bool" where
  "js_gt a b = (case a of None \<Rightarrow> False | Some x \<Rightarrow> x > b)"

text \<open>
  A \<^verbatim>\<open>Date\<close> at local midnight, read through \<^verbatim>\<open>getFullYear\<close>, \<^verbatim>\<open>getMonth\<close>
  (0 to 11) and \<^verbatim>\<open>getDate\<close>.
\<close>

record jsdate =
  getFullYear :: int
  getMonth :: int
  getDate :: int

definition isLeapYear :: "int \<Rightarrow> bool" where
  "isLeapYear y = (y mod 4 = 0 \<and> (y mod 100 \<noteq> 0 \<or> y mod 400 = 0))"

definition daysInMonth :: "int \<Rightarrow> int \<Rightarrow> int" where
  "daysInMonth y monthIndex =
     (if monthIndex = 1 then (if isLeapYear y then 29 else 28)
      else if monthIndex \<in> {3, 5, 8, 10} then 30 else 31)"

text \<open>
  \<^verbatim>\<open>new Date(year, monthIndex, day)\<close> for a month index from 0 to 11 and a day from
  1 to 31, the only arguments \<open>validateAndCreateDate\<close> lets through: a day past the
  end of the month rolls over into the next month.
\<close>

definition newDate :: "int \<Rightarrow> int \<Rightarrow> int \<Rightarrow> jsdate" where
  "newDate y monthIndex d =
     (if d \<le> daysInMonth y monthIndex
      then \<lparr>getFullYear = y, getMonth = monthIndex, getDate = d\<rparr>
      else if monthIndex = 11
      then \<lparr>getFullYear = y + 1, getMonth = 0, getDate = d - 31\<rparr>
      else \<lparr>getFullYear = y, getMonth = monthIndex + 1, getDate = d - daysInMonth y monthIndex\<rparr>)"

text \<open>
  An argument that is \<^verbatim>\<open>NaN\<close> passes the three range checks (every comparison
  with \<^verbatim>\<open>NaN\<close> is false) and makes an invalid \<^verbatim>\<open>Date\<close>, whose getters return
  \<^verbatim>\<open>NaN\<close>; the final comparison then fails.
\<close>

definition validateAndCreateDate :: "string \<Rightarrow> string \<Rightarrow> string \<Rightarrow> jsdate option" where
  "validateAndCreateDate yearStr monthStr dayStr =
     (let year = parseInt yearStr;
          month = parseInt monthStr;
          day = parseInt dayStr
      in if js_lt year 2009 \<or> js_gt year 2025 then None
         else if js_lt month 1 \<or> js_gt month 12 then None
         else if js_lt day 1 \<or> js_gt day 31 then None
         else (case (year, month, day) of
                 (Some y, Some m, Some d) \<Rightarrow>
                   let date = newDate y (m - 1) d
                   in if getFullYear date = y \<and> getMonth date = m - 1 \<and> getDate date = d
                      then Some date else None
               | _ \<Rightarrow> None))"

text \<open>
  The pattern of \<open>extractDateFromFilename\<close>,
  \<^verbatim>\<open>(20(?:0[9]|1[0-9]|2[0-5]))(0[1-9]|1[0-2])(0[1-9]|[12][0-9]|3[01])\<close>,
  at the start of a string.
\<close>

definition inRange :: "char \<Rightarrow> char \<Rightarrow> char \<Rightarrow> bool" where
  "inRange lo hi c = ((of_char lo :: nat) \<le> of_char c \<and> (of_char c :: nat) \<le> of_char hi)"

fun datePatternAt :: "string \<Rightarrow> bool" where
  "datePatternAt (c0 # c1 # c2 # c3 # c4 # c5 # c6 # c7 # rest) =
     (c0 = CHR ''2'' \<and> c1 = CHR ''0'' \<and>
      ((c2 = CHR ''0'' \<and> c3 = CHR ''9'') \<or> (c2 = CHR ''1'' \<and> inRange CHR ''0'' CHR ''9'' c3)
        \<or> (c2 = CHR ''2'' \<and> inRange CHR ''0'' CHR ''5'' c3)) \<and>
      ((c4 = CHR ''0'' \<and> inRange CHR ''1'' CHR ''9'' c5) \<or> (c4 = CHR ''1'' \<and> inRange CHR ''0'' CHR ''2'' c5)) \<and>
      ((c6 = CHR ''0'' \<and> inRange CHR ''1'' CHR ''9'' c7)
        \<or> ((c6 = CHR ''1'' \<or> c6 = CHR ''2'') \<and> inRange CHR ''0'' CHR ''9'' c7)
        \<or> (c6 = CHR ''3'' \<and> inRange CHR ''0'' CHR ''1'' c7)))"
| "datePatternAt s = False"

text \<open>\<^verbatim>\<open>filename.match(datePattern)\<close>: the leftmost match, as its three groups.\<close>

fun datePatternMatch :: "string \<Rightarrow> (string \<times> string \<times> string) option" where
  "datePatternMatch [] = None"
| "datePatternMatch (c # cs) =
     (if datePatternAt (c # cs)
      then Some (take 4 (c # cs), take 2 (drop 4 (c # cs)), take 2 (drop 6 (c # cs)))
      else datePatternMatch cs)"

definition extractDateFromFilename :: "path \<Rightarrow> jsdate option" where
  "extractDateFromFilename filePath =
     (let filename = basename_noext filePath
      in case datePatternMatch filename of
           Some (year, month, day) \<Rightarrow> validateAndCreateDate year month day
         | None \<Rightarrow> None)"

text \<open>
  The date \<open>processVideoOrPatternFile\<close> organizes a video or GIF by: the one in
  its file name, or else the modification time of the file.
\<close>

datatype creation_date = FromFilename jsdate | FromMtime int

definition videoCreationDate :: "filesystem \<Rightarrow> path \<Rightarrow> error + creation_date" where
  "videoCreationDate fs filePath =
     (case extractDateFromFilename filePath of
        Some date \<Rightarrow> Inr (FromFilename date)
      | None \<Rightarrow> (case stat fs filePath of Inl e \<Rightarrow> Inl e | Inr stats \<Rightarrow> Inr (FromMtime (mtime stats))))"

subsection \<open>createVideoFingerprint\<close>

text \<open>The pattern \<^verbatim>\<open>^(\d{4}-\d{2}-\d{2})_\d+$\<close> on a whole string.\<close>

definition videoDatePattern :: "string \<Rightarrow> bool" where
  "videoDatePattern s =
     (list_all isDigit (take 4 s) \<and> length (take 4 s) = 4 \<and>
      take 1 (drop 4 s) = ''-'' \<and>
      list_all isDigit (take 2 (drop 5 s)) \<and> length (take 2 (drop 5 s)) = 2 \<and>
      take 1 (drop 7 s) = ''-'' \<and>
      list_all isDigit (take 2 (drop 8 s)) \<and> length (take 2 (drop 8 s)) = 2 \<and>
      take 1 (drop 10 s) = ''_'' \<and>
      drop 11 s \<noteq> [] \<and> list_all isDigit (drop 11 s))"

text \<open>
  \<open>None\<close> is the \<^verbatim>\<open>null\<close> the function returns for a file it will not fingerprint.
  \<^verbatim>\<open>Number\<close> on a run of digits is its value, and \<^verbatim>\<open>toString\<close> writes it back
  without leading zeros.
\<close>

definition createVideoFingerprint :: "filesystem \<Rightarrow> path \<Rightarrow> error + string option" where
  "createVideoFingerprint fs filePath =
     (case stat fs filePath of
        Inl e \<Rightarrow> Inl e
      | Inr stats \<Rightarrow>
          let fileSize = fsize stats;
              filename = basename_noext filePath
          in if \<not> videoDatePattern filename then Inr None
             else
               let dateStr = take 10 filename;
                   year = digits_val (take 4 dateStr);
                   month = digits_val (take 2 (drop 5 dateStr));
                   day = digits_val (take 2 (drop 8 dateStr))
               in if validateAndCreateDate (numberToString year)
                       (padStart 2 CHR ''0'' (numberToString month))
                       (padStart 2 CHR ''0'' (numberToString day)) = None
                  then Inr None
                  else Inr (Some (numberToString fileSize @ ''-video-'' @ dateStr)))"

section \<open>Facts about decimal numerals\<close>

lemma digit_char_cases:
  assumes "d < 10"
  shows "d \<in> {0, 1, 2, 3, 4, 5, 6, 7, 8, 9::nat}"
  using assms by auto

lemma digit_val_digit_char: "d < 10 \<Longrightarrow> digit_val (digit_char d) = d"
  using digit_char_cases [of d] by (auto simp: digit_val_def digit_char_def)

lemma isDigit_digit_char: "d < 10 \<Longrightarrow> isDigit (digit_char d)"
  using digit_char_cases [of d] by (auto simp: isDigit_def digit_char_def)

lemma digits_val_snoc: "digits_val (s @ [c]) = 10 * digits_val s + digit_val c"
  by (simp add: digits_val_def)

lemma digits_val_numberToString: "digits_val (numberToString n) = n"
proof (induction n rule: numberToString.induct)
  case (1 n)
  show ?case
  proof (cases "n < 10")
    case True
    then show ?thesis
      by (subst numberToString.simps) (simp add: digits_val_def digit_val_digit_char)
  next
    case False
    with 1 have "digits_val (numberToString (n div 10)) = n div 10" by simp
    with False show ?thesis
      by (subst numberToString.simps) (simp add: digits_val_snoc digit_val_digit_char)
  qed
qed

lemma numberToString_inj: "numberToString a = numberToString b \<Longrightarrow> a = b"
  by (metis digits_val_numberToString)

lemma numberToString_digits: "\<forall>c \<in> set (numberToString n). isDigit c"
proof (induction n rule: numberToString.induct)
  case (1 n)
  show ?case
  proof (cases "n < 10")
    case True
    then show ?thesis
      by (subst numberToString.simps) (simp add: isDigit_digit_char)
  next
    case False
    with 1 have "\<forall>c \<in> set (numberToString (n div 10)). isDigit c" by simp
    with False show ?thesis
      by (subst numberToString.simps) (simp add: isDigit_digit_char)
  qed
qed

lemma numberToString_nonempty: "numberToString n \<noteq> []"
  by (subst numberToString.simps) simp

lemma dash_not_digit: "\<not> isDigit (CHR ''-'')"
  by (simp add: isDigit_def)

text \<open>A numeral followed by a dash determines the numeral.\<close>

lemma numeral_dash_prefix:
  assumes "numberToString a @ CHR ''-'' # r = numberToString b @ CHR ''-'' # s"
  shows "a = b"
proof -
  have ta: "takeWhile isDigit (numberToString a @ CHR ''-'' # r) = numberToString a"
    using numberToString_digits [of a] by (simp add: takeWhile_append2 dash_not_digit)
  have tb: "takeWhile isDigit (numberToString b @ CHR ''-'' # s) = numberToString b"
    using numberToString_digits [of b] by (simp add: takeWhile_append2 dash_not_digit)
  from assms ta tb have "numberToString a = numberToString b" by simp
  then show ?thesis by (rule numberToString_inj)
qed

section \<open>Calendar dates in file names\<close>

text \<open>
  The calendar as the specification words it: a year from 2009 to 2025, a month from
  1 to 12, a day from 1 to 31 that the month of that year has (February has 29 days
  in a leap year).
\<close>

definition monthLength :: "int \<Rightarrow> int \<Rightarrow> int" where
  "monthLength y m =
     (if m = 2 then (if y mod 4 = 0 \<and> (y mod 100 \<noteq> 0 \<or> y mod 400 = 0) then 29 else 28)
      else if m = 4 \<or> m = 6 \<or> m = 9 \<or> m = 11 then 30 else 31)"

definition validFilenameDate :: "int \<Rightarrow> int \<Rightarrow> int \<Rightarrow> bool" where
  "validFilenameDate y m d =
     (2009 \<le> y \<and> y \<le> 2025 \<and> 1 \<le> m \<and> m \<le> 12 \<and> 1 \<le> d \<and> d \<le> 31 \<and> d \<le> monthLength y m)"


text \<open>The year, month and day that a name of the form \<^verbatim>\<open>YYYY-MM-DD_NNN\<close> carries.\<close>

definition nameHasValidDate :: "string \<Rightarrow> bool" where
  "nameHasValidDate n =
     validFilenameDate (int (digits_val (take 4 n))) (int (digits_val (take 2 (drop 5 n))))
       (int (digits_val (take 2 (drop 8 n))))"

lemma daysInMonth_monthLength: "daysInMonth y (m - 1) = monthLength y m"
  by (auto simp: daysInMonth_def monthLength_def isLeapYear_def)

lemma daysInMonth_ge: "28 \<le> daysInMonth y i"
  by (simp add: daysInMonth_def)

lemma newDate_roundtrip:
  "(getFullYear (newDate y i d) = y \<and> getMonth (newDate y i d) = i \<and> getDate (newDate y i d) = d)
     = (d \<le> daysInMonth y i)"
  by (auto simp: newDate_def)

lemma validateAndCreateDate_Some_iff:
  "validateAndCreateDate ys ms ds = Some dt \<longleftrightarrow>
     (\<exists>y m d. parseInt ys = Some y \<and> parseInt ms = Some m \<and> parseInt ds = Some d \<and>
        validFilenameDate y m d \<and>
        dt = \<lparr>getFullYear = y, getMonth = m - 1, getDate = d\<rparr>)"
proof (cases "parseInt ys")
  case None
  then show ?thesis
    by (auto simp: validateAndCreateDate_def Let_def js_lt_def js_gt_def split: option.splits)
next
  case (Some y)
  note y = this
  show ?thesis
  proof (cases "parseInt ms")
    case None
    with y show ?thesis
      by (auto simp: validateAndCreateDate_def Let_def js_lt_def js_gt_def split: option.splits)
  next
    case (Some m)
    note m = this
    show ?thesis
    proof (cases "parseInt ds")
      case None
      with y m show ?thesis
        by (auto simp: validateAndCreateDate_def Let_def js_lt_def js_gt_def split: option.splits)
    next
      case (Some d)
      have rt: "(getFullYear (newDate y (m - 1) d) = y \<and> getMonth (newDate y (m - 1) d) = m - 1
                 \<and> getDate (newDate y (m - 1) d) = d) = (d \<le> monthLength y m)"
        by (simp only: newDate_roundtrip daysInMonth_monthLength)
      have nd: "d \<le> monthLength y m \<Longrightarrow> newDate y (m - 1) d = \<lparr>getFullYear = y, getMonth = m - 1, getDate = d\<rparr>"
        by (simp add: newDate_def daysInMonth_monthLength)
      from y m Some show ?thesis
        unfolding validateAndCreateDate_def Let_def js_lt_def js_gt_def validFilenameDate_def
        using rt nd by (auto simp del: newDate_roundtrip)
    qed
  qed
qed

lemma isDigit_simps:
  "isDigit c \<Longrightarrow> \<not> isSpace c" "isDigit c \<Longrightarrow> c \<noteq> CHR ''-''" "isDigit c \<Longrightarrow> c \<noteq> CHR ''+''"
  "\<not> isDigit (CHR ''x'')" "\<not> isDigit (CHR ''X'')"
  by (auto simp: isDigit_def isSpace_def)

lemma takeWhile_all: "list_all P s \<Longrightarrow> takeWhile P s = s"
  by (induction s) auto

lemma parseInt_digits:
  assumes "s \<noteq> []" and "list_all isDigit s"
  shows "parseInt s = Some (int (digits_val s))"
proof -
  obtain c r where s: "s = c # r" using assms(1) by (cases s) auto
  with assms(2) have c: "isDigit c" and r: "list_all isDigit r" by auto
  have nohex: "take 2 s \<noteq> ''0x''" "take 2 s \<noteq> ''0X''"
    using s r by (cases r; auto simp: isDigit_simps)+
  have dw: "dropWhile isSpace s = s" using s c by (simp add: isDigit_simps)
  have tw: "takeWhile isDigit s = s" using assms(2) by (rule takeWhile_all)
  have sign: "hd s \<noteq> CHR ''-''" "hd s \<noteq> CHR ''+''" using s c by (auto simp: isDigit_simps)
  have u: "(if s \<noteq> [] \<and> (hd s = CHR ''-'' \<or> hd s = CHR ''+'') then tl s else s) = s"
    using sign by simp
  have hex: "(take 2 s = ''0x'' \<or> take 2 s = ''0X'') = False"
    using nohex by simp
  have neg: "(s \<noteq> [] \<and> hd s = CHR ''-'') = False"
    using sign by simp
  show ?thesis
    unfolding parseInt_def Let_def dw u hex neg if_False tw
    using assms(1) by simp
qed

lemma digits_val_leading_zeros: "digits_val (replicate k CHR ''0'' @ s) = digits_val s"
proof -
  have "foldl (\<lambda>a c. 10 * a + digit_val c) 0 (replicate k CHR ''0'') = 0"
    by (induction k) (auto simp: digit_val_def)
  then show ?thesis by (simp add: digits_val_def)
qed

lemma numberToString_all_digits: "list_all isDigit (numberToString n)"
  using numberToString_digits [of n] by (simp add: list_all_iff)

lemma parseInt_numberToString: "parseInt (numberToString n) = Some (int n)"
  by (simp add: parseInt_digits numberToString_nonempty numberToString_all_digits digits_val_numberToString)

lemma parseInt_padStart: "parseInt (padStart k CHR ''0'' (numberToString n)) = Some (int n)"
proof -
  have "list_all isDigit (padStart k CHR ''0'' (numberToString n))"
  proof -
    have z: "isDigit CHR ''0''" by (simp add: isDigit_def)
    show ?thesis
      using numberToString_digits [of n] z by (auto simp: padStart_def list_all_iff)
  qed
  moreover have "padStart k CHR ''0'' (numberToString n) \<noteq> []"
    by (simp add: padStart_def numberToString_nonempty)
  ultimately show ?thesis
    by (simp add: parseInt_digits) (simp add: padStart_def digits_val_leading_zeros digits_val_numberToString)
qed

lemma createVideoFingerprint_Some_iff:
  "createVideoFingerprint fs p = Inr (Some fp) \<longleftrightarrow>
     (\<exists>f. stat fs p = Inr f \<and> videoDatePattern (basename_noext p) \<and>
          nameHasValidDate (basename_noext p) \<and>
          fp = numberToString (fsize f) @ ''-video-'' @ take 10 (basename_noext p))"
proof -
  let ?n = "basename_noext p"
  let ?y = "digits_val (take 4 (take 10 ?n))"
  let ?m = "digits_val (take 2 (drop 5 (take 10 ?n)))"
  let ?d = "digits_val (take 2 (drop 8 (take 10 ?n)))"
  have v: "validateAndCreateDate (numberToString ?y) (padStart 2 CHR ''0'' (numberToString ?m))
             (padStart 2 CHR ''0'' (numberToString ?d)) \<noteq> None
           \<longleftrightarrow> validFilenameDate (int ?y) (int ?m) (int ?d)"
  proof -
    have "validateAndCreateDate (numberToString ?y) (padStart 2 CHR ''0'' (numberToString ?m))
             (padStart 2 CHR ''0'' (numberToString ?d)) \<noteq> None
          \<longleftrightarrow> (\<exists>dt. validateAndCreateDate (numberToString ?y) (padStart 2 CHR ''0'' (numberToString ?m))
             (padStart 2 CHR ''0'' (numberToString ?d)) = Some dt)"
      by (simp only: not_None_eq)
    also have "\<dots> \<longleftrightarrow> validFilenameDate (int ?y) (int ?m) (int ?d)"
      by (simp only: validateAndCreateDate_Some_iff parseInt_numberToString parseInt_padStart) simp
    finally show ?thesis .
  qed
  have t: "take 4 (take 10 ?n) = take 4 ?n" "take 2 (drop 5 (take 10 ?n)) = take 2 (drop 5 ?n)"
    "take 2 (drop 8 (take 10 ?n)) = take 2 (drop 8 ?n)"
    by (simp_all add: drop_take min_def)
  show ?thesis
  proof (cases "stat fs p")
    case (Inl e)
    then show ?thesis by (simp add: createVideoFingerprint_def)
  next
    case (Inr f)
    show ?thesis
    proof (cases "videoDatePattern ?n")
      case False
      with Inr show ?thesis by (simp add: createVideoFingerprint_def Let_def)
    next
      case True
      show ?thesis
      proof (cases "validFilenameDate (int ?y) (int ?m) (int ?d)")
        case False
        with v have "validateAndCreateDate (numberToString ?y) (padStart 2 CHR ''0'' (numberToString ?m))
             (padStart 2 CHR ''0'' (numberToString ?d)) = None" by simp
        with Inr True False show ?thesis
          unfolding createVideoFingerprint_def Let_def nameHasValidDate_def
          by (simp add: t)
      next
        case vd: True
        with v have "validateAndCreateDate (numberToString ?y) (padStart 2 CHR ''0'' (numberToString ?m))
             (padStart 2 CHR ''0'' (numberToString ?d)) \<noteq> None" by simp
        with Inr True vd show ?thesis
          unfolding createVideoFingerprint_def Let_def nameHasValidDate_def
          by (auto simp: t)
      qed
    qed
  qed
qed

section \<open>Fingerprints and byte sizes\<close>

lemma createFileFingerprint_shape:
  assumes "createFileFingerprint md5 fs p = Inr fp"
  shows "\<exists>f r. stat fs p = Inr f \<and> fp = numberToString (fsize f) @ CHR ''-'' # r"
  using assms
  by (cases "stat fs p") (auto simp: createFileFingerprint_def Let_def)

lemma createVideoFingerprint_shape:
  assumes "createVideoFingerprint fs p = Inr (Some fp)"
  shows "\<exists>f r. stat fs p = Inr f \<and> fp = numberToString (fsize f) @ CHR ''-'' # r"
  using assms unfolding createVideoFingerprint_Some_iff by auto

lemma shapes_same_size:
  assumes "stat fs p1 = Inr f1" and "stat fs' p2 = Inr f2"
    and "\<exists>f r. stat fs p1 = Inr f \<and> fp = numberToString (fsize f) @ CHR ''-'' # r"
    and "\<exists>f r. stat fs' p2 = Inr f \<and> fp = numberToString (fsize f) @ CHR ''-'' # r"
  shows "fsize f1 = fsize f2"
proof -
  from assms(1,3) obtain r where 1: "fp = numberToString (fsize f1) @ CHR ''-'' # r" by auto
  from assms(2,4) obtain r' where 2: "fp = numberToString (fsize f2) @ CHR ''-'' # r'" by auto
  from 1 2 have "numberToString (fsize f1) @ CHR ''-'' # r = numberToString (fsize f2) @ CHR ''-'' # r'"
    by simp
  then show ?thesis by (rule numeral_dash_prefix)
qed

text \<open>
  C5.  Files of different byte sizes never share a fingerprint: neither two image
  fingerprints, nor two video fingerprints, nor an image and a video fingerprint.
  Both kinds of fingerprint start with the decimal size and a dash.
\<close>

theorem fingerprint_determines_size:
  assumes "stat fs p1 = Inr f1" and "stat fs' p2 = Inr f2" and "fsize f1 \<noteq> fsize f2"
  shows "createFileFingerprint md5 fs p1 \<noteq> createFileFingerprint md5' fs' p2
       \<and> (\<forall>fp. createVideoFingerprint fs p1 = Inr (Some fp) \<longrightarrow> createVideoFingerprint fs' p2 \<noteq> Inr (Some fp))
       \<and> (\<forall>fp. createFileFingerprint md5 fs p1 = Inr fp \<longrightarrow> createVideoFingerprint fs' p2 \<noteq> Inr (Some fp))
       \<and> (\<forall>fp. createVideoFingerprint fs p1 = Inr (Some fp) \<longrightarrow> createFileFingerprint md5' fs' p2 \<noteq> Inr fp)"
proof -
  note same = shapes_same_size [OF assms(1,2)]
  have ii: "createFileFingerprint md5 fs p1 \<noteq> createFileFingerprint md5' fs' p2"
  proof
    assume eq: "createFileFingerprint md5 fs p1 = createFileFingerprint md5' fs' p2"
    obtain fp where 1: "createFileFingerprint md5 fs p1 = Inr fp"
      using assms(1) by (simp add: createFileFingerprint_def Let_def)
    with eq have 2: "createFileFingerprint md5' fs' p2 = Inr fp" by simp
    from same [OF createFileFingerprint_shape [OF 1] createFileFingerprint_shape [OF 2]] assms(3)
    show False by simp
  qed
  have vv: "createVideoFingerprint fs' p2 \<noteq> Inr (Some fp)"
    if 1: "createVideoFingerprint fs p1 = Inr (Some fp)" for fp
  proof
    assume 2: "createVideoFingerprint fs' p2 = Inr (Some fp)"
    from same [OF createVideoFingerprint_shape [OF 1] createVideoFingerprint_shape [OF 2]] assms(3)
    show False by simp
  qed
  have iv: "createVideoFingerprint fs' p2 \<noteq> Inr (Some fp)"
    if 1: "createFileFingerprint md5 fs p1 = Inr fp" for fp
  proof
    assume 2: "createVideoFingerprint fs' p2 = Inr (Some fp)"
    from same [OF createFileFingerprint_shape [OF 1] createVideoFingerprint_shape [OF 2]] assms(3)
    show False by simp
  qed
  have vi: "createFileFingerprint md5' fs' p2 \<noteq> Inr fp"
    if 1: "createVideoFingerprint fs p1 = Inr (Some fp)" for fp
  proof
    assume 2: "createFileFingerprint md5' fs' p2 = Inr fp"
    from same [OF createVideoFingerprint_shape [OF 1] createFileFingerprint_shape [OF 2]] assms(3)
    show False by simp
  qed
  from ii vv iv vi show ?thesis by blast
qed

definition photo100 :: fileinfo where
  "photo100 = \<lparr>fsize = 100, mtime = 1000, exifr_parse = ParseNothing, readJson = ParseFails\<rparr>"

definition photo200 :: fileinfo where
  "photo200 = \<lparr>fsize = 200, mtime = 2000, exifr_parse = ParseThrows, readJson = ParseFails\<rparr>"

definition sample_fs :: filesystem where
  "sample_fs = [(Path [''in''] ''2023-01-15_001.mp4'', photo100), (Path [''in''] ''2023-01-15_002.mp4'', photo200)]"

theorem fingerprint_determines_size_witness:
  "stat sample_fs (Path [''in''] ''2023-01-15_001.mp4'') = Inr photo100
   \<and> stat sample_fs (Path [''in''] ''2023-01-15_002.mp4'') = Inr photo200
   \<and> fsize photo100 \<noteq> fsize photo200
   \<and> createFileFingerprint (\<lambda>e. ''d41d8cd9'') sample_fs (Path [''in''] ''2023-01-15_001.mp4'') = Inr ''100-no-exif''
   \<and> createVideoFingerprint sample_fs (Path [''in''] ''2023-01-15_001.mp4'') = Inr (Some ''100-video-2023-01-15'')
   \<and> createVideoFingerprint sample_fs (Path [''in''] ''2023-01-15_002.mp4'') \<noteq> Inr (Some ''100-video-2023-01-15'')"
proof -
  have 1: "stat sample_fs (Path [''in''] ''2023-01-15_001.mp4'') = Inr photo100"
    by (simp add: stat_def sample_fs_def)
  have 2: "stat sample_fs (Path [''in''] ''2023-01-15_002.mp4'') = Inr photo200"
    by (simp add: stat_def sample_fs_def)
  have 3: "fsize photo100 \<noteq> fsize photo200"
    by (simp add: photo100_def photo200_def)
  have 4: "createFileFingerprint (\<lambda>e. ''d41d8cd9'') sample_fs (Path [''in''] ''2023-01-15_001.mp4'') = Inr ''100-no-exif''"
    by code_simp
  have 6: "createVideoFingerprint sample_fs (Path [''in''] ''2023-01-15_001.mp4'') = Inr (Some ''100-video-2023-01-15'')"
    by code_simp
  note T = fingerprint_determines_size [OF 1 2 3, of "\<lambda>e. ''d41d8cd9''" "\<lambda>e. ''d41d8cd9''"]
  note 7 = T [THEN conjunct2, THEN conjunct1, rule_format, OF 6]
  from 1 2 3 4 6 7 show ?thesis by (intro conjI)
qed

section \<open>Dates that file names yield\<close>

lemma extractDateFromFilename_valid:
  assumes "extractDateFromFilename p = Some dt"
  shows "\<exists>y m d. validFilenameDate y m d \<and> dt = \<lparr>getFullYear = y, getMonth = m - 1, getDate = d\<rparr>"
proof -
  from assms obtain ys ms ds where "validateAndCreateDate ys ms ds = Some dt"
    by (auto simp: extractDateFromFilename_def Let_def split: option.splits)
  then show ?thesis unfolding validateAndCreateDate_Some_iff by blast
qed

lemma videoCreationDate_fallback:
  assumes "extractDateFromFilename p = None" and "stat fs p = Inr f"
  shows "videoCreationDate fs p = Inr (FromMtime (mtime f))"
  using assms by (simp add: videoCreationDate_def)

lemma createVideoFingerprint_invalid_date:
  assumes "stat fs p = Inr f"
    and "\<not> nameHasValidDate (basename_noext p)"
  shows "createVideoFingerprint fs p = Inr None"
proof -
  have "\<exists>r. createVideoFingerprint fs p = Inr r"
    using assms(1) by (simp add: createVideoFingerprint_def Let_def)
  then obtain r where r: "createVideoFingerprint fs p = Inr r" ..
  show ?thesis
  proof (cases r)
    case None
    with r show ?thesis by simp
  next
    case (Some fp)
    with r have "createVideoFingerprint fs p = Inr (Some fp)" by simp
    with assms(2) show ?thesis unfolding createVideoFingerprint_Some_iff by blast
  qed
qed

lemma char_by_code:
  assumes "(of_char c :: nat) = k" and "(of_char d :: nat) = k"
  shows "c = d"
proof -
  from assms have "(of_char c :: nat) = of_char d" by simp
  then show ?thesis by (simp only: of_char_eq_iff)
qed

lemma code_range_digit: "48 \<le> (of_char c :: nat) \<Longrightarrow> (of_char c :: nat) \<le> 57 \<Longrightarrow> c \<in> set ''0123456789''"
proof -
  assume a: "48 \<le> (of_char c :: nat)" "(of_char c :: nat) \<le> 57"
  define n where "n = (of_char c :: nat)"
  from a have "n = 48 \<or> n = 49 \<or> n = 50 \<or> n = 51 \<or> n = 52 \<or> n = 53 \<or> n = 54 \<or> n = 55 \<or> n = 56 \<or> n = 57"
    unfolding n_def by arith
  then consider "n = 48" | "n = 49" | "n = 50" | "n = 51" | "n = 52" | "n = 53" | "n = 54" | "n = 55"
    | "n = 56" | "n = 57" by blast
  then have "c = CHR ''0'' \<or> c = CHR ''1'' \<or> c = CHR ''2'' \<or> c = CHR ''3'' \<or> c = CHR ''4''
      \<or> c = CHR ''5'' \<or> c = CHR ''6'' \<or> c = CHR ''7'' \<or> c = CHR ''8'' \<or> c = CHR ''9''"
  proof cases
    case 1
    then have "c = CHR ''0''" unfolding n_def by (rule char_by_code) simp
    then show ?thesis by simp
  next
    case 2
    then have "c = CHR ''1''" unfolding n_def by (rule char_by_code) simp
    then show ?thesis by simp
  next
    case 3
    then have "c = CHR ''2''" unfolding n_def by (rule char_by_code) simp
    then show ?thesis by simp
  next
    case 4
    then have "c = CHR ''3''" unfolding n_def by (rule char_by_code) simp
    then show ?thesis by simp
  next
    case 5
    then have "c = CHR ''4''" unfolding n_def by (rule char_by_code) simp
    then show ?thesis by simp
  next
    case 6
    then have "c = CHR ''5''" unfolding n_def by (rule char_by_code) simp
    then show ?thesis by simp
  next
    case 7
    then have "c = CHR ''6''" unfolding n_def by (rule char_by_code) simp
    then show ?thesis by simp
  next
    case 8
    then have "c = CHR ''7''" unfolding n_def by (rule char_by_code) simp
    then show ?thesis by simp
  next
    case 9
    then have "c = CHR ''8''" unfolding n_def by (rule char_by_code) simp
    then show ?thesis by simp
  next
    case 10
    then have "c = CHR ''9''" unfolding n_def by (rule char_by_code) simp
    then show ?thesis by simp
  qed
  then show ?thesis by auto
qed

lemma inRange_isDigit:
  assumes "inRange lo hi c" and "48 \<le> (of_char lo :: nat)" and "(of_char hi :: nat) \<le> 57"
  shows "isDigit c"
proof -
  from assms have "48 \<le> (of_char c :: nat)" "(of_char c :: nat) \<le> 57" by (simp_all add: inRange_def)
  then show ?thesis unfolding isDigit_def by (rule code_range_digit)
qed

lemma datePatternAt_shape:
  assumes "datePatternAt t"
  shows "length (take 8 t) = 8 \<and> list_all isDigit (take 8 t)
       \<and> 2009 \<le> digits_val (take 4 t) \<and> digits_val (take 4 t) \<le> 2025
       \<and> 1 \<le> digits_val (take 2 (drop 4 t)) \<and> digits_val (take 2 (drop 4 t)) \<le> 12
       \<and> 1 \<le> digits_val (take 2 (drop 6 t)) \<and> digits_val (take 2 (drop 6 t)) \<le> 31"
proof -
  from assms obtain c0 c1 c2 c3 c4 c5 c6 c7 rest where t: "t = c0 # c1 # c2 # c3 # c4 # c5 # c6 # c7 # rest"
    by (cases t rule: datePatternAt.cases) auto
  from assms t have p: "c0 = CHR ''2''" "c1 = CHR ''0''"
    "(c2 = CHR ''0'' \<and> c3 = CHR ''9'') \<or> (c2 = CHR ''1'' \<and> inRange CHR ''0'' CHR ''9'' c3)
        \<or> (c2 = CHR ''2'' \<and> inRange CHR ''0'' CHR ''5'' c3)"
    "(c4 = CHR ''0'' \<and> inRange CHR ''1'' CHR ''9'' c5) \<or> (c4 = CHR ''1'' \<and> inRange CHR ''0'' CHR ''2'' c5)"
    "(c6 = CHR ''0'' \<and> inRange CHR ''1'' CHR ''9'' c7)
        \<or> ((c6 = CHR ''1'' \<or> c6 = CHR ''2'') \<and> inRange CHR ''0'' CHR ''9'' c7)
        \<or> (c6 = CHR ''3'' \<and> inRange CHR ''0'' CHR ''1'' c7)"
    by simp_all
  have d: "isDigit c0" "isDigit c1" "isDigit c2" "isDigit c4" "isDigit c6"
    using p by (auto simp: isDigit_def)
  have r: "inRange lo hi c \<Longrightarrow> 48 \<le> (of_char lo :: nat) \<and> (of_char hi :: nat) \<le> 57 \<Longrightarrow> isDigit c"
    for lo hi c using inRange_isDigit [of lo hi c] by blast
  have d3: "isDigit c3"
  proof -
    from p(3) consider "c3 = CHR ''9''" | "inRange CHR ''0'' CHR ''9'' c3" | "inRange CHR ''0'' CHR ''5'' c3"
      by blast
    then show ?thesis
    proof cases
      case 1
      then show ?thesis by (simp add: isDigit_def)
    next
      case 2
      then show ?thesis by (rule r) simp
    next
      case 3
      then show ?thesis by (rule r) simp
    qed
  qed
  have d5: "isDigit c5"
  proof -
    from p(4) consider "inRange CHR ''1'' CHR ''9'' c5" | "inRange CHR ''0'' CHR ''2'' c5" by blast
    then show ?thesis
    proof cases
      case 1
      then show ?thesis by (rule r) simp
    next
      case 2
      then show ?thesis by (rule r) simp
    qed
  qed
  have d7: "isDigit c7"
  proof -
    from p(5) consider "inRange CHR ''1'' CHR ''9'' c7" | "inRange CHR ''0'' CHR ''9'' c7"
      | "inRange CHR ''0'' CHR ''1'' c7" by blast
    then show ?thesis
    proof cases
      case 1
      then show ?thesis by (rule r) simp
    next
      case 2
      then show ?thesis by (rule r) simp
    next
      case 3
      then show ?thesis by (rule r) simp
    qed
  qed
  have y: "2009 \<le> digits_val [c0, c1, c2, c3] \<and> digits_val [c0, c1, c2, c3] \<le> 2025"
    using p(1,2,3) by (auto simp: digits_val_def digit_val_def inRange_def)
  have m: "1 \<le> digits_val [c4, c5] \<and> digits_val [c4, c5] \<le> 12"
    using p(4) by (auto simp: digits_val_def digit_val_def inRange_def)
  have dd: "1 \<le> digits_val [c6, c7] \<and> digits_val [c6, c7] \<le> 31"
    using p(5) by (auto simp: digits_val_def digit_val_def inRange_def)
  from t d d3 d5 d7 y m dd show ?thesis by simp
qed

lemma datePatternMatch_None_iff:
  "datePatternMatch s = None \<longleftrightarrow> (\<forall>i. \<not> datePatternAt (drop i s))"
proof (induction s)
  case Nil
  show ?case by simp
next
  case (Cons c cs)
  have "(\<forall>i. \<not> datePatternAt (drop i (c # cs)))
        \<longleftrightarrow> \<not> datePatternAt (c # cs) \<and> (\<forall>i. \<not> datePatternAt (drop i cs))"
  proof
    assume a: "\<forall>i. \<not> datePatternAt (drop i (c # cs))"
    from a [rule_format, of 0] have 1: "\<not> datePatternAt (c # cs)" by simp
    have "\<not> datePatternAt (drop i cs)" for i using a [rule_format, of "Suc i"] by simp
    with 1 show "\<not> datePatternAt (c # cs) \<and> (\<forall>i. \<not> datePatternAt (drop i cs))" by blast
  next
    assume a: "\<not> datePatternAt (c # cs) \<and> (\<forall>i. \<not> datePatternAt (drop i cs))"
    show "\<forall>i. \<not> datePatternAt (drop i (c # cs))"
    proof
      fix i show "\<not> datePatternAt (drop i (c # cs))" using a by (cases i) auto
    qed
  qed
  with Cons show ?case by simp
qed

lemma datePatternMatch_leftmost:
  assumes "datePatternAt (drop i s)" and "\<forall>j<i. \<not> datePatternAt (drop j s)"
  shows "datePatternMatch s = Some (take 4 (drop i s), take 2 (drop 4 (drop i s)), take 2 (drop 6 (drop i s)))"
  using assms
proof (induction s arbitrary: i)
  case Nil
  then show ?case by simp
next
  case (Cons c cs)
  show ?case
  proof (cases i)
    case 0
    with Cons.prems(1) show ?thesis by simp
  next
    case (Suc k)
    from Cons.prems(2) Suc have n0: "\<not> datePatternAt (c # cs)" by (metis drop0 zero_less_Suc)
    from Cons.prems(1) Suc have 1: "datePatternAt (drop k cs)" by simp
    have 2: "\<forall>j<k. \<not> datePatternAt (drop j cs)"
    proof (intro allI impI)
      fix j assume "j < k"
      then have "Suc j < i" using Suc by simp
      with Cons.prems(2) have "\<not> datePatternAt (drop (Suc j) (c # cs))" by blast
      then show "\<not> datePatternAt (drop j cs)" by simp
    qed
    from Cons.IH [OF 1 2] n0 Suc show ?thesis by simp
  qed
qed

lemma parseInt_group:
  assumes "list_all isDigit g" and "g \<noteq> []"
  shows "parseInt g = Some (int (digits_val g))"
  using assms by (simp add: parseInt_digits)

lemma validate_after_match:
  assumes "datePatternAt t"
  shows "validateAndCreateDate (take 4 t) (take 2 (drop 4 t)) (take 2 (drop 6 t)) =
           (if int (digits_val (take 2 (drop 6 t)))
                 \<le> monthLength (int (digits_val (take 4 t))) (int (digits_val (take 2 (drop 4 t))))
            then Some \<lparr>getFullYear = int (digits_val (take 4 t)),
                       getMonth = int (digits_val (take 2 (drop 4 t))) - 1,
                       getDate = int (digits_val (take 2 (drop 6 t)))\<rparr>
            else None)"
proof -
  let ?ys = "take 4 t" and ?ms = "take 2 (drop 4 t)" and ?ds = "take 2 (drop 6 t)"
  note sh = datePatternAt_shape [OF assms]
  from sh have "length (take 8 t) = 8" by blast
  then have len: "length t \<ge> 8" by (simp add: min_def split: if_splits)
  from sh have all8: "list_all isDigit (take 8 t)" by simp
  have sub: "set ?ys \<subseteq> set (take 8 t)" "set ?ms \<subseteq> set (take 8 t)" "set ?ds \<subseteq> set (take 8 t)"
  proof -
    have "?ys = take 4 (take 8 t)" by simp
    then show "set ?ys \<subseteq> set (take 8 t)" by (metis set_take_subset)
    have "?ms = take 2 (drop 4 (take 8 t))" by (simp add: drop_take)
    then show "set ?ms \<subseteq> set (take 8 t)" by (metis set_take_subset set_drop_subset subset_trans)
    have "?ds = take 2 (drop 6 (take 8 t))" by (simp add: drop_take)
    then show "set ?ds \<subseteq> set (take 8 t)" by (metis set_take_subset set_drop_subset subset_trans)
  qed
  from all8 sub have dig: "list_all isDigit ?ys" "list_all isDigit ?ms" "list_all isDigit ?ds"
    by (auto simp: list_all_iff)
  from len have ne: "?ys \<noteq> []" "?ms \<noteq> []" "?ds \<noteq> []" by auto
  have py: "parseInt ?ys = Some (int (digits_val ?ys))" using dig(1) ne(1) by (rule parseInt_group)
  have pm: "parseInt ?ms = Some (int (digits_val ?ms))" using dig(2) ne(2) by (rule parseInt_group)
  have pd: "parseInt ?ds = Some (int (digits_val ?ds))" using dig(3) ne(3) by (rule parseInt_group)
  have v: "validFilenameDate (int (digits_val ?ys)) (int (digits_val ?ms)) (int (digits_val ?ds))
          \<longleftrightarrow> int (digits_val ?ds) \<le> monthLength (int (digits_val ?ys)) (int (digits_val ?ms))"
    using sh by (simp add: validFilenameDate_def)
  show ?thesis
  proof (cases "int (digits_val ?ds) \<le> monthLength (int (digits_val ?ys)) (int (digits_val ?ms))")
    case True
    with v have "validFilenameDate (int (digits_val ?ys)) (int (digits_val ?ms)) (int (digits_val ?ds))"
      by simp
    with py pm pd have "validateAndCreateDate ?ys ?ms ?ds
        = Some \<lparr>getFullYear = int (digits_val ?ys), getMonth = int (digits_val ?ms) - 1,
                getDate = int (digits_val ?ds)\<rparr>"
      unfolding validateAndCreateDate_Some_iff by blast
    with True show ?thesis by simp
  next
    case False
    have "validateAndCreateDate ?ys ?ms ?ds = None"
    proof (rule ccontr)
      assume "validateAndCreateDate ?ys ?ms ?ds \<noteq> None"
      then obtain dt where "validateAndCreateDate ?ys ?ms ?ds = Some dt" by blast
      then have "validFilenameDate (int (digits_val ?ys)) (int (digits_val ?ms)) (int (digits_val ?ds))"
        unfolding validateAndCreateDate_Some_iff using py pm pd by auto
      with v False show False by simp
    qed
    with False show ?thesis by simp
  qed
qed

lemma extractDateFromFilename_no_match:
  assumes "\<forall>i. \<not> datePatternAt (drop i (basename_noext p))"
  shows "extractDateFromFilename p = None"
  using assms by (simp add: extractDateFromFilename_def Let_def datePatternMatch_None_iff [symmetric])

lemma extractDateFromFilename_leftmost:
  assumes "datePatternAt (drop i (basename_noext p))"
    and "\<forall>j<i. \<not> datePatternAt (drop j (basename_noext p))"
  shows "extractDateFromFilename p =
           (if int (digits_val (take 2 (drop 6 (drop i (basename_noext p)))))
                 \<le> monthLength (int (digits_val (take 4 (drop i (basename_noext p)))))
                      (int (digits_val (take 2 (drop 4 (drop i (basename_noext p))))))
            then Some \<lparr>getFullYear = int (digits_val (take 4 (drop i (basename_noext p)))),
                       getMonth = int (digits_val (take 2 (drop 4 (drop i (basename_noext p))))) - 1,
                       getDate = int (digits_val (take 2 (drop 6 (drop i (basename_noext p)))))\<rparr>
            else None)"
proof -
  let ?n = "basename_noext p"
  have m: "datePatternMatch ?n
           = Some (take 4 (drop i ?n), take 2 (drop 4 (drop i ?n)), take 2 (drop 6 (drop i ?n)))"
    using assms by (rule datePatternMatch_leftmost)
  have e: "extractDateFromFilename p
         = validateAndCreateDate (take 4 (drop i ?n)) (take 2 (drop 4 (drop i ?n))) (take 2 (drop 6 (drop i ?n)))"
    unfolding extractDateFromFilename_def Let_def m by simp
  from validate_after_match [OF assms(1)] show ?thesis unfolding e .
qed

text \<open>
  C10, as amended.  \<open>validateAndCreateDate\<close> returns a date exactly for a year from
  2009 to 2025, a month from 1 to 12 and a day from 1 to 31 that exists in the
  calendar, and then it is that date; so \<open>extractDateFromFilename\<close> yields only such
  dates, and a name of the form \<^verbatim>\<open>YYYY-MM-DD_N\<close> whose date is not one gets no video
  fingerprint.  The date of a name is read from the leftmost place, anywhere in the
  name, where eight characters have the form \<^verbatim>\<open>YYYYMMDD\<close> with a year from 2009 to
  2025, a month from 01 to 12 and a day from 01 to 31.  A video is organized by
  that date when the month has that day, and by its modification time when the month
  has not, or when the name has no such place.  Digits that spell a date outside
  the window are passed over, and the search goes on behind them.
\<close>

theorem filename_dates_within_2009_2025:
  "(validateAndCreateDate ys ms ds = Some dt \<longleftrightarrow>
      (\<exists>y m d. parseInt ys = Some y \<and> parseInt ms = Some m \<and> parseInt ds = Some d \<and>
         validFilenameDate y m d \<and> dt = \<lparr>getFullYear = y, getMonth = m - 1, getDate = d\<rparr>))
   \<and> (extractDateFromFilename p = Some dt' \<longrightarrow>
        (\<exists>y m d. validFilenameDate y m d \<and> dt' = \<lparr>getFullYear = y, getMonth = m - 1, getDate = d\<rparr>))
   \<and> (extractDateFromFilename p = None \<and> stat fs p = Inr f \<longrightarrow>
        videoCreationDate fs p = Inr (FromMtime (mtime f)))
   \<and> (stat fs p = Inr f \<and>
        \<not> nameHasValidDate (basename_noext p) \<longrightarrow>
        createVideoFingerprint fs p = Inr None)
   \<and> ((\<forall>i. \<not> datePatternAt (drop i (basename_noext p))) \<and> stat fs p = Inr f \<longrightarrow>
        videoCreationDate fs p = Inr (FromMtime (mtime f)))
   \<and> (datePatternAt (drop i (basename_noext p)) \<and> (\<forall>j<i. \<not> datePatternAt (drop j (basename_noext p)))
        \<and> stat fs p = Inr f \<longrightarrow>
        videoCreationDate fs p =
          (if int (digits_val (take 2 (drop 6 (drop i (basename_noext p)))))
                \<le> monthLength (int (digits_val (take 4 (drop i (basename_noext p)))))
                     (int (digits_val (take 2 (drop 4 (drop i (basename_noext p))))))
           then Inr (FromFilename
                  \<lparr>getFullYear = int (digits_val (take 4 (drop i (basename_noext p)))),
                   getMonth = int (digits_val (take 2 (drop 4 (drop i (basename_noext p))))) - 1,
                   getDate = int (digits_val (take 2 (drop 6 (drop i (basename_noext p)))))\<rparr>)
           else Inr (FromMtime (mtime f))))
   \<and> (datePatternAt t \<longrightarrow>
        length (take 8 t) = 8 \<and> list_all isDigit (take 8 t)
        \<and> 2009 \<le> digits_val (take 4 t) \<and> digits_val (take 4 t) \<le> 2025
        \<and> 1 \<le> digits_val (take 2 (drop 4 t)) \<and> digits_val (take 2 (drop 4 t)) \<le> 12
        \<and> 1 \<le> digits_val (take 2 (drop 6 t)) \<and> digits_val (take 2 (drop 6 t)) \<le> 31)"
proof -
  let ?n = "basename_noext p"
  have c1: "validateAndCreateDate ys ms ds = Some dt \<longleftrightarrow>
      (\<exists>y m d. parseInt ys = Some y \<and> parseInt ms = Some m \<and> parseInt ds = Some d \<and>
         validFilenameDate y m d \<and> dt = \<lparr>getFullYear = y, getMonth = m - 1, getDate = d\<rparr>)"
    by (rule validateAndCreateDate_Some_iff)
  have c2: "extractDateFromFilename p = Some dt' \<longrightarrow>
        (\<exists>y m d. validFilenameDate y m d \<and> dt' = \<lparr>getFullYear = y, getMonth = m - 1, getDate = d\<rparr>)"
    using extractDateFromFilename_valid [of p dt'] by blast
  have c3: "extractDateFromFilename p = None \<and> stat fs p = Inr f \<longrightarrow>
        videoCreationDate fs p = Inr (FromMtime (mtime f))"
    by (simp add: videoCreationDate_fallback)
  have c4: "stat fs p = Inr f \<and> \<not> nameHasValidDate ?n \<longrightarrow> createVideoFingerprint fs p = Inr None"
    using createVideoFingerprint_invalid_date [of fs p f] by blast
  have c5: "(\<forall>i. \<not> datePatternAt (drop i ?n)) \<and> stat fs p = Inr f \<longrightarrow>
        videoCreationDate fs p = Inr (FromMtime (mtime f))"
  proof
    assume a: "(\<forall>i. \<not> datePatternAt (drop i ?n)) \<and> stat fs p = Inr f"
    then have "extractDateFromFilename p = None" by (simp add: extractDateFromFilename_no_match)
    with a show "videoCreationDate fs p = Inr (FromMtime (mtime f))"
      by (simp add: videoCreationDate_fallback)
  qed
  have c6: "datePatternAt (drop i ?n) \<and> (\<forall>j<i. \<not> datePatternAt (drop j ?n)) \<and> stat fs p = Inr f \<longrightarrow>
        videoCreationDate fs p =
          (if int (digits_val (take 2 (drop 6 (drop i ?n))))
                \<le> monthLength (int (digits_val (take 4 (drop i ?n))))
                     (int (digits_val (take 2 (drop 4 (drop i ?n)))))
           then Inr (FromFilename
                  \<lparr>getFullYear = int (digits_val (take 4 (drop i ?n))),
                   getMonth = int (digits_val (take 2 (drop 4 (drop i ?n)))) - 1,
                   getDate = int (digits_val (take 2 (drop 6 (drop i ?n))))\<rparr>)
           else Inr (FromMtime (mtime f)))"
  proof
    assume a: "datePatternAt (drop i ?n) \<and> (\<forall>j<i. \<not> datePatternAt (drop j ?n)) \<and> stat fs p = Inr f"
    then have 1: "datePatternAt (drop i ?n)" and 2: "\<forall>j<i. \<not> datePatternAt (drop j ?n)"
      and 3: "stat fs p = Inr f" by blast+
    show "videoCreationDate fs p =
          (if int (digits_val (take 2 (drop 6 (drop i ?n))))
                \<le> monthLength (int (digits_val (take 4 (drop i ?n))))
                     (int (digits_val (take 2 (drop 4 (drop i ?n)))))
           then Inr (FromFilename
                  \<lparr>getFullYear = int (digits_val (take 4 (drop i ?n))),
                   getMonth = int (digits_val (take 2 (drop 4 (drop i ?n)))) - 1,
                   getDate = int (digits_val (take 2 (drop 6 (drop i ?n))))\<rparr>)
           else Inr (FromMtime (mtime f)))"
      unfolding videoCreationDate_def extractDateFromFilename_leftmost [OF 1 2] 3 by simp
  qed
  have c7: "datePatternAt t \<longrightarrow>
        length (take 8 t) = 8 \<and> list_all isDigit (take 8 t)
        \<and> 2009 \<le> digits_val (take 4 t) \<and> digits_val (take 4 t) \<le> 2025
        \<and> 1 \<le> digits_val (take 2 (drop 4 t)) \<and> digits_val (take 2 (drop 4 t)) \<le> 12
        \<and> 1 \<le> digits_val (take 2 (drop 6 t)) \<and> digits_val (take 2 (drop 6 t)) \<le> 31"
    using datePatternAt_shape [of t] by blast
  from c1 c2 c3 c4 c5 c6 c7 show ?thesis by (intro conjI)
qed

definition clip2008 :: fileinfo where
  "clip2008 = \<lparr>fsize = 4096, mtime = 1230768000000, exifr_parse = ParseThrows, readJson = ParseFails\<rparr>"

definition vid2020 :: path where
  "vid2020 = Path [''in''] ''VID_20200624_205041.mp4''"

definition img_feb30 :: path where
  "img_feb30 = Path [''in''] ''VID_20230230_101500.mp4''"

theorem filename_dates_within_2009_2025_witness:
  "validateAndCreateDate ''2024'' ''02'' ''29'' = Some \<lparr>getFullYear = 2024, getMonth = 1, getDate = 29\<rparr>
   \<and> validFilenameDate 2024 2 29
   \<and> validateAndCreateDate ''2023'' ''02'' ''29'' = None
   \<and> extractDateFromFilename vid2020 = Some \<lparr>getFullYear = 2020, getMonth = 5, getDate = 24\<rparr>
   \<and> validFilenameDate 2020 6 24
   \<and> extractDateFromFilename (Path [''in''] ''2008-12-31_001.mp4'') = None
   \<and> stat [(Path [''in''] ''2008-12-31_001.mp4'', clip2008)] (Path [''in''] ''2008-12-31_001.mp4'') = Inr clip2008
   \<and> videoCreationDate [(Path [''in''] ''2008-12-31_001.mp4'', clip2008)] (Path [''in''] ''2008-12-31_001.mp4'')
       = Inr (FromMtime (mtime clip2008))
   \<and> createVideoFingerprint [(Path [''in''] ''2008-12-31_001.mp4'', clip2008)] (Path [''in''] ''2008-12-31_001.mp4'')
       = Inr None
   \<and> datePatternMatch (basename_noext (Path [''in''] ''2008-12-31_001.mp4'')) = None
   \<and> datePatternAt (drop 4 (basename_noext vid2020))
   \<and> stat [(vid2020, clip2008)] vid2020 = Inr clip2008
   \<and> videoCreationDate [(vid2020, clip2008)] vid2020
       = Inr (FromFilename \<lparr>getFullYear = 2020, getMonth = 5, getDate = 24\<rparr>)
   \<and> datePatternAt (drop 4 (basename_noext img_feb30))
   \<and> stat [(img_feb30, clip2008)] img_feb30 = Inr clip2008
   \<and> videoCreationDate [(img_feb30, clip2008)] img_feb30 = Inr (FromMtime (mtime clip2008))
   \<and> 2009 \<le> digits_val (take 4 (drop 4 (basename_noext vid2020)))
   \<and> digits_val (take 4 (drop 4 (basename_noext vid2020))) \<le> 2025"
proof -
  let ?p = "Path [''in''] ''2008-12-31_001.mp4''"
  let ?fs = "[(?p, clip2008)]"
  note T = filename_dates_within_2009_2025 [of "''2024''" "''02''" "''29''"
      "\<lparr>getFullYear = 2024, getMonth = 1, getDate = 29\<rparr>" ?p _ ?fs clip2008]
  have a: "validateAndCreateDate ''2024'' ''02'' ''29'' = Some \<lparr>getFullYear = 2024, getMonth = 1, getDate = 29\<rparr>"
    by code_simp
  have b: "validFilenameDate 2024 2 29" by (simp add: validFilenameDate_def monthLength_def)
  have c: "validateAndCreateDate ''2023'' ''02'' ''29'' = None" by code_simp
  have d: "extractDateFromFilename vid2020
       = Some \<lparr>getFullYear = 2020, getMonth = 5, getDate = 24\<rparr>" by code_simp
  have e: "validFilenameDate 2020 6 24" by (simp add: validFilenameDate_def monthLength_def)
  have g: "extractDateFromFilename ?p = None" by code_simp
  have h: "stat ?fs ?p = Inr clip2008" by (simp add: stat_def)
  have i: "\<not> nameHasValidDate (basename_noext ?p)" by code_simp
  note j = T [THEN conjunct2, THEN conjunct2, THEN conjunct1, rule_format, OF conjI [OF g h]]
  note k = T [THEN conjunct2, THEN conjunct2, THEN conjunct2, THEN conjunct1, rule_format, OF conjI [OF h i]]
  have l: "datePatternMatch (basename_noext ?p) = None" by code_simp
  note l' = l [unfolded datePatternMatch_None_iff]
  note j' = T [THEN conjunct2, THEN conjunct2, THEN conjunct2, THEN conjunct2, THEN conjunct1, rule_format,
      OF conjI [OF l' h]]
  have lt4: "j = 0 \<or> j = 1 \<or> j = 2 \<or> j = 3" if "j < 4" for j :: nat using that by arith
  have m: "datePatternAt (drop 4 (basename_noext vid2020))" by code_simp
  have m0: "\<not> datePatternAt (drop 0 (basename_noext vid2020))" by code_simp
  have m1: "\<not> datePatternAt (drop 1 (basename_noext vid2020))" by code_simp
  have m2: "\<not> datePatternAt (drop 2 (basename_noext vid2020))" by code_simp
  have m3: "\<not> datePatternAt (drop 3 (basename_noext vid2020))" by code_simp
  have mm: "\<forall>j<4. \<not> datePatternAt (drop j (basename_noext vid2020))"
    using lt4 m0 m1 m2 m3 by metis
  have n: "stat [(vid2020, clip2008)] vid2020 = Inr clip2008" by (simp add: stat_def)
  note U = filename_dates_within_2009_2025 [where p = vid2020 and fs = "[(vid2020, clip2008)]"
      and f = clip2008 and i = 4 and t = "drop 4 (basename_noext vid2020)"]
  note U6 = U [THEN conjunct2, THEN conjunct2, THEN conjunct2, THEN conjunct2, THEN conjunct2, THEN conjunct1,
      rule_format, OF conjI [OF m conjI [OF mm n]]]
  have v1: "(if int (digits_val (take 2 (drop 6 (drop 4 (basename_noext vid2020)))))
                \<le> monthLength (int (digits_val (take 4 (drop 4 (basename_noext vid2020)))))
                     (int (digits_val (take 2 (drop 4 (drop 4 (basename_noext vid2020))))))
           then Inr (FromFilename
                  \<lparr>getFullYear = int (digits_val (take 4 (drop 4 (basename_noext vid2020)))),
                   getMonth = int (digits_val (take 2 (drop 4 (drop 4 (basename_noext vid2020))))) - 1,
                   getDate = int (digits_val (take 2 (drop 6 (drop 4 (basename_noext vid2020)))))\<rparr>)
           else Inr (FromMtime (mtime clip2008)))
        = (Inr (FromFilename \<lparr>getFullYear = 2020, getMonth = 5, getDate = 24\<rparr>) :: error + creation_date)"
    by code_simp
  from U6 v1 have o: "videoCreationDate [(vid2020, clip2008)] vid2020
       = Inr (FromFilename \<lparr>getFullYear = 2020, getMonth = 5, getDate = 24\<rparr>)" by simp
  have q: "datePatternAt (drop 4 (basename_noext img_feb30))" by code_simp
  have q0: "\<not> datePatternAt (drop 0 (basename_noext img_feb30))" by code_simp
  have q1: "\<not> datePatternAt (drop 1 (basename_noext img_feb30))" by code_simp
  have q2: "\<not> datePatternAt (drop 2 (basename_noext img_feb30))" by code_simp
  have q3: "\<not> datePatternAt (drop 3 (basename_noext img_feb30))" by code_simp
  have qq: "\<forall>j<4. \<not> datePatternAt (drop j (basename_noext img_feb30))"
    using lt4 q0 q1 q2 q3 by metis
  have r: "stat [(img_feb30, clip2008)] img_feb30 = Inr clip2008" by (simp add: stat_def)
  note V = filename_dates_within_2009_2025 [where p = img_feb30 and fs = "[(img_feb30, clip2008)]"
      and f = clip2008 and i = 4]
  note V6 = V [THEN conjunct2, THEN conjunct2, THEN conjunct2, THEN conjunct2, THEN conjunct2, THEN conjunct1,
      rule_format, OF conjI [OF q conjI [OF qq r]]]
  have v2: "(if int (digits_val (take 2 (drop 6 (drop 4 (basename_noext img_feb30)))))
                \<le> monthLength (int (digits_val (take 4 (drop 4 (basename_noext img_feb30)))))
                     (int (digits_val (take 2 (drop 4 (drop 4 (basename_noext img_feb30))))))
           then Inr (FromFilename
                  \<lparr>getFullYear = int (digits_val (take 4 (drop 4 (basename_noext img_feb30)))),
                   getMonth = int (digits_val (take 2 (drop 4 (drop 4 (basename_noext img_feb30))))) - 1,
                   getDate = int (digits_val (take 2 (drop 6 (drop 4 (basename_noext img_feb30)))))\<rparr>)
           else Inr (FromMtime (mtime clip2008)))
        = (Inr (FromMtime (mtime clip2008)) :: error + creation_date)"
    by code_simp
  from V6 v2 have s: "videoCreationDate [(img_feb30, clip2008)] img_feb30 = Inr (FromMtime (mtime clip2008))"
    by simp
  note W = U [THEN conjunct2, THEN conjunct2, THEN conjunct2, THEN conjunct2, THEN conjunct2, THEN conjunct2,
      rule_format, OF m]
  from W have w1: "2009 \<le> digits_val (take 4 (drop 4 (basename_noext vid2020)))" by blast
  from W have w2: "digits_val (take 4 (drop 4 (basename_noext vid2020))) \<le> 2025" by blast
  from a b c d e g h j k l m n o q r s w1 w2 show ?thesis by (intro conjI)
qed

text \<open>
  A video that a phone named on 24 June 2026 at 20:13:12.155.  The date of the name
  is outside the window, and the video is not organized by its modification time:
  the digits of the time of day are read as 15 December 2013.
\<close>

definition pxl2026 :: path where
  "pxl2026 = Path [''in''] ''PXL_20260624_201312155.mp4''"

definition clip2026 :: fileinfo where
  "clip2026 = \<lparr>fsize = 4096, mtime = 1782331992155, exifr_parse = ParseThrows, readJson = ParseFails\<rparr>"

theorem time_digits_are_read_as_the_date:
  "take 8 (drop 4 (basename_noext pxl2026)) = ''20260624''
   \<and> \<not> validFilenameDate 2026 6 24
   \<and> \<not> datePatternAt (drop 4 (basename_noext pxl2026))
   \<and> datePatternAt (drop 13 (basename_noext pxl2026))
   \<and> extractDateFromFilename pxl2026 = Some \<lparr>getFullYear = 2013, getMonth = 11, getDate = 15\<rparr>
   \<and> stat [(pxl2026, clip2026)] pxl2026 = Inr clip2026
   \<and> videoCreationDate [(pxl2026, clip2026)] pxl2026
       = Inr (FromFilename \<lparr>getFullYear = 2013, getMonth = 11, getDate = 15\<rparr>)
   \<and> videoCreationDate [(pxl2026, clip2026)] pxl2026 \<noteq> Inr (FromMtime (mtime clip2026))"
proof -
  have 1: "take 8 (drop 4 (basename_noext pxl2026)) = ''20260624''" by code_simp
  have 2: "\<not> validFilenameDate 2026 6 24" by (simp add: validFilenameDate_def)
  have 3: "\<not> datePatternAt (drop 4 (basename_noext pxl2026))" by code_simp
  have 4: "datePatternAt (drop 13 (basename_noext pxl2026))" by code_simp
  have 5: "extractDateFromFilename pxl2026 = Some \<lparr>getFullYear = 2013, getMonth = 11, getDate = 15\<rparr>"
    by code_simp
  have 6: "stat [(pxl2026, clip2026)] pxl2026 = Inr clip2026" by (simp add: stat_def)
  have 7: "videoCreationDate [(pxl2026, clip2026)] pxl2026
       = Inr (FromFilename \<lparr>getFullYear = 2013, getMonth = 11, getDate = 15\<rparr>)"
    by (simp add: videoCreationDate_def 5)
  from 7 have 8: "videoCreationDate [(pxl2026, clip2026)] pxl2026 \<noteq> Inr (FromMtime (mtime clip2026))"
    by simp
  from 1 2 3 4 5 6 7 8 show ?thesis by (intro conjI)
qed

section \<open>Duplicate detection and removal\<close>

subsection \<open>Grouping files by fingerprint\<close>

text \<open>
  \<^verbatim>\<open>if (!m.has(k)) m.set(k, []); m.get(k).push(x)\<close>: a new key goes to the end of the
  map, an old key keeps its place.
\<close>

definition map_push :: "'k \<Rightarrow> 'a \<Rightarrow> ('k \<times> 'a list) list \<Rightarrow> ('k \<times> 'a list) list" where
  "map_push k x m =
     (case map_get k m of None \<Rightarrow> map_set k [x] m | Some xs \<Rightarrow> map_set k (xs @ [x]) m)"

text \<open>The first loop of \<open>findDuplicatesByExifAndSize\<close>; a file whose fingerprint throws is left out.\<close>

fun exifFingerprints ::
  "((string \<times> json) list \<Rightarrow> string) \<Rightarrow> filesystem \<Rightarrow> path list \<Rightarrow>
   (string \<times> path list) list \<Rightarrow> (string \<times> path list) list" where
  "exifFingerprints md5 fs [] fingerprints = fingerprints"
| "exifFingerprints md5 fs (file # imageFiles) fingerprints =
     (case createFileFingerprint md5 fs file of
        Inl e \<Rightarrow> exifFingerprints md5 fs imageFiles fingerprints
      | Inr fingerprint \<Rightarrow> exifFingerprints md5 fs imageFiles (map_push fingerprint file fingerprints))"

definition findDuplicatesByExifAndSize ::
  "((string \<times> json) list \<Rightarrow> string) \<Rightarrow> filesystem \<Rightarrow> path list \<Rightarrow> path list list" where
  "findDuplicatesByExifAndSize md5 fs imageFiles =
     filter (\<lambda>files. length files > 1) (map_values (exifFingerprints md5 fs imageFiles []))"

text \<open>
  The first loop of \<open>findDuplicatesByDateAndSize\<close>: \<^verbatim>\<open>if (fingerprint)\<close> lets only
  a fingerprint through, not \<^verbatim>\<open>null\<close>.
\<close>

fun dateFingerprints ::
  "filesystem \<Rightarrow> path list \<Rightarrow> (string \<times> path list) list \<Rightarrow> (string \<times> path list) list" where
  "dateFingerprints fs [] fingerprints = fingerprints"
| "dateFingerprints fs (file # videoFiles) fingerprints =
     (case createVideoFingerprint fs file of
        Inr (Some fingerprint) \<Rightarrow>
          (if fingerprint = [] then dateFingerprints fs videoFiles fingerprints
           else dateFingerprints fs videoFiles (map_push fingerprint file fingerprints))
      | _ \<Rightarrow> dateFingerprints fs videoFiles fingerprints)"

definition findDuplicatesByDateAndSize :: "filesystem \<Rightarrow> path list \<Rightarrow> path list list" where
  "findDuplicatesByDateAndSize fs videoFiles =
     filter (\<lambda>files. length files > 1) (map_values (dateFingerprints fs videoFiles []))"

subsection \<open>removeDuplicateFiles: the standalone pass\<close>

text \<open>\<^verbatim>\<open>fs.remove\<close>: deleting a path that is not there is not an error.\<close>

definition fs_remove :: "path \<Rightarrow> filesystem \<Rightarrow> filesystem" where
  "fs_remove p fs = filter (\<lambda>entry. fst entry \<noteq> p) fs"

definition mtimeOf :: "filesystem \<Rightarrow> path \<Rightarrow> int" where
  "mtimeOf fs p = (case map_of fs p of None \<Rightarrow> 0 | Some f \<Rightarrow> mtime f)"

text \<open>
  One round of the loop over the groups.  \<^verbatim>\<open>Array.prototype.sort\<close> is stable, and so is
  \<open>sort_key\<close>.  Sorting two files or more compares every one of them with another, and
  \<^verbatim>\<open>fs.statSync\<close> in the comparison throws when a file of the group is gone; a group
  of one file is never compared, so that file is kept even when it is gone.  For an
  empty group \<^verbatim>\<open>path.relative\<close> throws on \<^verbatim>\<open>undefined\<close>.  The result is the file kept
  and the files removed.  In a dry run nothing is deleted.
\<close>

definition removeDuplicateGroup ::
  "bool \<Rightarrow> filesystem \<Rightarrow> path list \<Rightarrow> error + filesystem \<times> path \<times> path list" where
  "removeDuplicateGroup dryRun fs grp =
     (if length grp > 1 \<and> \<not> list_all (pathExists fs) grp then Inl ENOENT
      else
        (case sort_key (mtimeOf fs) grp of
           [] \<Rightarrow> Inl TypeError
         | keepFile # duplicatesToRemove \<Rightarrow>
             Inr (if dryRun then fs else foldr fs_remove duplicatesToRemove fs,
                  keepFile, duplicatesToRemove)))"

fun removeDuplicateFiles ::
  "bool \<Rightarrow> filesystem \<Rightarrow> path list list \<Rightarrow> error + filesystem \<times> (path \<times> path list) list" where
  "removeDuplicateFiles dryRun fs [] = Inr (fs, [])"
| "removeDuplicateFiles dryRun fs (grp # duplicateGroups) =
     (case removeDuplicateGroup dryRun fs grp of
        Inl e \<Rightarrow> Inl e
      | Inr (fs', keepFile, duplicatesToRemove) \<Rightarrow>
          (case removeDuplicateFiles dryRun fs' duplicateGroups of
             Inl e \<Rightarrow> Inl e
           | Inr (fs'', decisions) \<Rightarrow> Inr (fs'', (keepFile, duplicatesToRemove) # decisions)))"

subsection \<open>removeDuplicates: the command around it\<close>

text \<open>\<^verbatim>\<open>toLowerCase\<close> on ASCII letters; the extension sets hold ASCII only.\<close>

definition toLowerCase :: "string \<Rightarrow> string" where
  "toLowerCase s =
     map (\<lambda>c. if inRange CHR ''A'' CHR ''Z'' c then char_of (of_char c + (32::nat)) else c) s"

definition imageExtensions :: "string list" where
  "imageExtensions =
     [''.jpg'', ''.jpeg'', ''.png'', ''.tiff'', ''.tif'', ''.bmp'', ''.webp'', ''.heic'', ''.heif'',
      ''.raw'', ''.cr2'', ''.nef'', ''.arw'', ''.dng'']"

definition videoExtensions :: "string list" where
  "videoExtensions = [''.mp4'', ''.avi'', ''.mov'', ''.mkv'', ''.wmv'', ''.flv'', ''.webm'', ''.m4v'']"

text \<open>
  The options of a \<^verbatim>\<open>PhotoOrganizer\<close> that the duplicate passes read.  The
  constructor stores \<^verbatim>\<open>options.duplicateSuffix || null\<close>, so a configured suffix is a
  non-empty string.
\<close>

record organizer =
  baseDirectory :: "string list"
  dryRun :: bool
  duplicateSuffix :: "string option"
  videosOnly :: bool


text \<open>\<open>scanFiles\<close>: every regular file below the base directory, in walk order.\<close>

definition scanFiles :: "string list \<Rightarrow> filesystem \<Rightarrow> path list" where
  "scanFiles dir fs =
     filter (\<lambda>p. take (length dir) (dirname p) = dir) (map fst fs)"

text \<open>
  \<^verbatim>\<open>fs.pathExists\<close> on a directory.  The file system lists regular files only, so a
  directory is there when a file lies below it, or when it is one of \<open>emptyDirs\<close>, the
  directories that hold no file.
\<close>

definition directoryExists :: "string list list \<Rightarrow> filesystem \<Rightarrow> string list \<Rightarrow> bool" where
  "directoryExists emptyDirs fs dir =
     (dir \<in> set emptyDirs \<or> (\<exists>p \<in> set (map fst fs). take (length dir) (dirname p) = dir))"

text \<open>
  \<open>removeDuplicates\<close> throws when the base directory is missing.  What it does after
  the duplicates are removed (deleting the directories left empty, printing the
  statistics) is left out.
\<close>

definition removeDuplicates ::
  "organizer \<Rightarrow> ((string \<times> json) list \<Rightarrow> string) \<Rightarrow> string list list \<Rightarrow> filesystem \<Rightarrow>
   error + filesystem \<times> (path \<times> path list) list" where
  "removeDuplicates this md5 emptyDirs fs =
     (if \<not> directoryExists emptyDirs fs (baseDirectory this) then Inl DirectoryDoesNotExist
      else
        let allFiles = scanFiles (baseDirectory this) fs;
            filesToAnalyze =
              (if videosOnly this
               then filter (\<lambda>file. toLowerCase (extname file) \<in> set videoExtensions) allFiles
               else filter (\<lambda>file. toLowerCase (extname file) \<in> set imageExtensions) allFiles);
            duplicateGroups =
              (if videosOnly this then findDuplicatesByDateAndSize fs filesToAnalyze
               else findDuplicatesByExifAndSize md5 fs filesToAnalyze)
        in removeDuplicateFiles (dryRun this) fs duplicateGroups)"

subsection \<open>handleDuplicates and handleFilenameDuplicates: the passes with a preferred suffix\<close>

record entry =
  epath :: path
  hasSuffix :: bool
  emtime :: int




definition fileHasSuffix :: "organizer \<Rightarrow> string \<Rightarrow> bool" where
  "fileHasSuffix this baseName =
     (case duplicateSuffix this of
        None \<Rightarrow> False
      | Some s \<Rightarrow> s \<noteq> [] \<and> endsWith baseName s)"





section \<open>Facts about maps and groups\<close>

lemma map_of_map_set: "map_of (map_set k v m) = (map_of m)(k \<mapsto> v)"
  by (induction m) (auto simp: fun_eq_iff)



lemma map_has_iff: "map_has k m \<longleftrightarrow> k \<in> set (map fst m)"
  by (auto simp: map_has_def map_of_eq_None_iff split: option.splits)
     (metis domI domIff map_of_eq_None_iff set_map)

lemma map_has_alt: "map_has k m \<longleftrightarrow> map_of m k \<noteq> None"
  by (simp add: map_has_def split: option.splits)

lemma map_of_map_push:
  "map_of (map_push k x m) k = Some ((case map_of m k of None \<Rightarrow> [] | Some xs \<Rightarrow> xs) @ [x])"
  by (simp add: map_push_def map_get_def map_of_map_set split: option.splits)

lemma map_of_map_push_other:
  "k' \<noteq> k \<Longrightarrow> map_of (map_push k x m) k' = map_of m k'"
  by (simp add: map_push_def map_get_def map_of_map_set split: option.splits)

text \<open>Grouping a list by a key that some elements lack: the shape of both first loops.\<close>

fun groupInto :: "('a \<Rightarrow> 'k option) \<Rightarrow> 'a list \<Rightarrow> ('k \<times> 'a list) list \<Rightarrow> ('k \<times> 'a list) list" where
  "groupInto key [] acc = acc"
| "groupInto key (x # xs) acc =
     (case key x of None \<Rightarrow> groupInto key xs acc | Some k \<Rightarrow> groupInto key xs (map_push k x acc))"

lemma groupInto_grows:
  "map_of acc k = Some g0 \<Longrightarrow> \<exists>g. map_of (groupInto key xs acc) k = Some g \<and> set g0 \<subseteq> set g"
proof (induction xs arbitrary: acc g0)
  case Nil
  then show ?case by simp
next
  case (Cons x xs)
  show ?case
  proof (cases "key x")
    case None
    with Cons show ?thesis by simp
  next
    case (Some k')
    show ?thesis
    proof (cases "k' = k")
      case True
      have "map_of (map_push k x acc) k = Some (g0 @ [x])"
        using Cons.prems by (simp add: map_of_map_push)
      from Cons.IH [OF this] Some True show ?thesis by auto
    next
      case False
      then have "map_of (map_push k' x acc) k = Some g0"
        using Cons.prems by (simp add: map_of_map_push_other)
      from Cons.IH [OF this] Some show ?thesis by auto
    qed
  qed
qed

lemma groupInto_member:
  "x \<in> set xs \<Longrightarrow> key x = Some k \<Longrightarrow> \<exists>g. map_of (groupInto key xs acc) k = Some g \<and> x \<in> set g"
proof (induction xs arbitrary: acc)
  case Nil
  then show ?case by simp
next
  case (Cons y ys)
  show ?case
  proof (cases "y = x")
    case True
    have "map_of (map_push k x acc) k = Some ((case map_of acc k of None \<Rightarrow> [] | Some xs \<Rightarrow> xs) @ [x])"
      by (rule map_of_map_push)
    from groupInto_grows [OF this, of key ys] Cons.prems(2) True show ?thesis by auto
  next
    case False
    with Cons.prems have "x \<in> set ys" by simp
    from Cons.IH [OF this Cons.prems(2)] show ?thesis by (cases "key y") auto
  qed
qed

lemma map_push_values:
  assumes "g \<in> set (map snd (map_push k x m))" and "y \<in> set g"
  shows "y = x \<or> (\<exists>g0 \<in> set (map snd m). y \<in> set g0)"
proof -
  from assms(1) obtain k' where in': "(k', g) \<in> set (map_push k x m)" by auto
  have cases: "(k', g) \<in> set (map_set k v m) \<Longrightarrow> (k', g) = (k, v) \<or> (k', g) \<in> set m" for v
    by (induction m) (auto split: if_splits)
  show ?thesis
  proof (cases "map_of m k")
    case None
    with in' have "(k', g) \<in> set (map_set k [x] m)" by (simp add: map_push_def map_get_def)
    from cases [OF this] assms(2) show ?thesis by force
  next
    case (Some xs)
    with in' have "(k', g) \<in> set (map_set k (xs @ [x]) m)" by (simp add: map_push_def map_get_def)
    from cases [OF this] have "g = xs @ [x] \<or> (k', g) \<in> set m" by auto
    moreover have "(k, xs) \<in> set m" using Some by (rule map_of_SomeD)
    ultimately show ?thesis using assms(2) by force
  qed
qed

lemma groupInto_only_keyed:
  assumes "g \<in> set (map snd (groupInto key xs acc))" and "y \<in> set g"
  shows "(y \<in> set xs \<and> key y \<noteq> None) \<or> (\<exists>g0 \<in> set (map snd acc). y \<in> set g0)"
  using assms
proof (induction xs arbitrary: acc)
  case Nil
  then show ?case by auto
next
  case (Cons x xs)
  show ?case
  proof (cases "key x")
    case None
    with Cons.prems have "g \<in> set (map snd (groupInto key xs acc))" by simp
    from Cons.IH [OF this Cons.prems(2)] show ?thesis by auto
  next
    case (Some k)
    with Cons.prems have "g \<in> set (map snd (groupInto key xs (map_push k x acc)))" by simp
    from Cons.IH [OF this Cons.prems(2)]
    show ?thesis
    proof
      assume "y \<in> set xs \<and> key y \<noteq> None"
      then show ?thesis by simp
    next
      assume "\<exists>g0 \<in> set (map snd (map_push k x acc)). y \<in> set g0"
      then obtain g0 where "g0 \<in> set (map snd (map_push k x acc))" "y \<in> set g0" by blast
      from map_push_values [OF this] Some show ?thesis by auto
    qed
  qed
qed

definition exifKey :: "((string \<times> json) list \<Rightarrow> string) \<Rightarrow> filesystem \<Rightarrow> path \<Rightarrow> string option" where
  "exifKey md5 fs p = (case createFileFingerprint md5 fs p of Inl e \<Rightarrow> None | Inr fp \<Rightarrow> Some fp)"

definition dateKey :: "filesystem \<Rightarrow> path \<Rightarrow> string option" where
  "dateKey fs p =
     (case createVideoFingerprint fs p of
        Inr (Some fp) \<Rightarrow> if fp = [] then None else Some fp
      | _ \<Rightarrow> None)"

lemma exifFingerprints_groupInto:
  "exifFingerprints md5 fs files acc = groupInto (exifKey md5 fs) files acc"
  by (induction files arbitrary: acc) (auto simp: exifKey_def split: sum.splits)

lemma dateFingerprints_groupInto:
  "dateFingerprints fs files acc = groupInto (dateKey fs) files acc"
  by (induction files arbitrary: acc) (auto simp: dateKey_def split: sum.splits option.splits)

lemma two_members_length:
  assumes "x \<in> set g" and "y \<in> set g" and "x \<noteq> y"
  shows "length g > 1"
proof (cases g)
  case Nil
  with assms show ?thesis by simp
next
  case (Cons a r)
  with assms show ?thesis by (cases r) auto
qed

section \<open>Files without readable metadata\<close>

lemma no_exif_fingerprint:
  assumes "stat fs p = Inr f" and "exifr_parse f = ParseThrows \<or> exifr_parse f = ParseNothing"
  shows "createFileFingerprint md5 fs p = Inr (numberToString (fsize f) @ ''-no-exif'')"
  using assms by (auto simp: createFileFingerprint_def Let_def)

lemma same_fingerprint_same_group:
  assumes "p1 \<in> set files" and "p2 \<in> set files" and "p1 \<noteq> p2"
    and "createFileFingerprint md5 fs p1 = Inr fp" and "createFileFingerprint md5 fs p2 = Inr fp"
  shows "\<exists>g \<in> set (findDuplicatesByExifAndSize md5 fs files). p1 \<in> set g \<and> p2 \<in> set g"
proof -
  let ?m = "exifFingerprints md5 fs files []"
  have k1: "exifKey md5 fs p1 = Some fp" and k2: "exifKey md5 fs p2 = Some fp"
    using assms(4,5) by (simp_all add: exifKey_def)
  from groupInto_member [of p1 files "exifKey md5 fs" fp "[]", OF assms(1) k1]
  obtain g where g: "map_of ?m fp = Some g" and m1: "p1 \<in> set g"
    by (auto simp: exifFingerprints_groupInto)
  from groupInto_member [of p2 files "exifKey md5 fs" fp "[]", OF assms(2) k2] g have m2: "p2 \<in> set g"
    by (auto simp: exifFingerprints_groupInto)
  from g have "(fp, g) \<in> set ?m" by (rule map_of_SomeD)
  then have "g \<in> set (map_values ?m)" by (force simp: map_values_def)
  moreover have "length g > 1" using m1 m2 assms(3) by (rule two_members_length)
  ultimately have "g \<in> set (findDuplicatesByExifAndSize md5 fs files)"
    by (simp add: findDuplicatesByExifAndSize_def)
  with m1 m2 show ?thesis by blast
qed

text \<open>
  C6.  An image whose metadata cannot be read (the parser throws or returns nothing)
  gets the fingerprint \<^verbatim>\<open><size>-no-exif\<close>.  So two such files of the same size have
  the same fingerprint, and the duplicate scan puts them into one duplicate group.
\<close>

theorem unreadable_metadata_fingerprint:
  assumes "stat fs p1 = Inr f1" and "exifr_parse f1 = ParseThrows \<or> exifr_parse f1 = ParseNothing"
  shows "createFileFingerprint md5 fs p1 = Inr (numberToString (fsize f1) @ ''-no-exif'')
    \<and> (stat fs p2 = Inr f2 \<and> (exifr_parse f2 = ParseThrows \<or> exifr_parse f2 = ParseNothing)
         \<and> fsize f2 = fsize f1 \<longrightarrow>
       createFileFingerprint md5 fs p2 = createFileFingerprint md5 fs p1
       \<and> (p1 \<in> set files \<and> p2 \<in> set files \<and> p1 \<noteq> p2 \<longrightarrow>
           (\<exists>g \<in> set (findDuplicatesByExifAndSize md5 fs files). p1 \<in> set g \<and> p2 \<in> set g)))"
proof (intro conjI impI)
  show 1: "createFileFingerprint md5 fs p1 = Inr (numberToString (fsize f1) @ ''-no-exif'')"
    using assms by (rule no_exif_fingerprint)
  {
    assume a: "stat fs p2 = Inr f2 \<and> (exifr_parse f2 = ParseThrows \<or> exifr_parse f2 = ParseNothing)
         \<and> fsize f2 = fsize f1"
    then have 2: "createFileFingerprint md5 fs p2 = Inr (numberToString (fsize f1) @ ''-no-exif'')"
      using no_exif_fingerprint [of fs p2 f2 md5] by auto
    with 1 show "createFileFingerprint md5 fs p2 = createFileFingerprint md5 fs p1" by simp
    assume "p1 \<in> set files \<and> p2 \<in> set files \<and> p1 \<noteq> p2"
    then show "\<exists>g \<in> set (findDuplicatesByExifAndSize md5 fs files). p1 \<in> set g \<and> p2 \<in> set g"
      using same_fingerprint_same_group [OF _ _ _ 1 2] by blast
  }
qed

definition scan1 :: fileinfo where
  "scan1 = \<lparr>fsize = 2048, mtime = 1000, exifr_parse = ParseThrows, readJson = ParseFails\<rparr>"

definition scan2 :: fileinfo where
  "scan2 = \<lparr>fsize = 2048, mtime = 2000, exifr_parse = ParseNothing, readJson = ParseFails\<rparr>"

definition scans_fs :: filesystem where
  "scans_fs = [(Path [''lib''] ''a.png'', scan1), (Path [''lib''] ''b.png'', scan2)]"

theorem unreadable_metadata_fingerprint_witness:
  "stat scans_fs (Path [''lib''] ''a.png'') = Inr scan1
   \<and> exifr_parse scan1 = ParseThrows
   \<and> stat scans_fs (Path [''lib''] ''b.png'') = Inr scan2
   \<and> exifr_parse scan2 = ParseNothing
   \<and> createFileFingerprint (\<lambda>e. ''d41d8cd9'') scans_fs (Path [''lib''] ''a.png'') = Inr ''2048-no-exif''
   \<and> createFileFingerprint (\<lambda>e. ''d41d8cd9'') scans_fs (Path [''lib''] ''b.png'')
       = createFileFingerprint (\<lambda>e. ''d41d8cd9'') scans_fs (Path [''lib''] ''a.png'')
   \<and> findDuplicatesByExifAndSize (\<lambda>e. ''d41d8cd9'') scans_fs [Path [''lib''] ''a.png'', Path [''lib''] ''b.png'']
       = [[Path [''lib''] ''a.png'', Path [''lib''] ''b.png'']]"
proof -
  let ?a = "Path [''lib''] ''a.png''" and ?b = "Path [''lib''] ''b.png''"
  have 1: "stat scans_fs ?a = Inr scan1" by (simp add: stat_def scans_fs_def)
  have 2: "exifr_parse scan1 = ParseThrows" by (simp add: scan1_def)
  have 3: "stat scans_fs ?b = Inr scan2" by (simp add: stat_def scans_fs_def)
  have 4: "exifr_parse scan2 = ParseNothing" by (simp add: scan2_def)
  have 5: "fsize scan2 = fsize scan1" by (simp add: scan1_def scan2_def)
  have n: "numberToString (fsize scan1) @ ''-no-exif'' = ''2048-no-exif''" by code_simp
  note T = unreadable_metadata_fingerprint [OF 1 disjI1 [OF 2], of "\<lambda>e. ''d41d8cd9''" ?b scan2 "[?a, ?b]"]
  from T n have 6: "createFileFingerprint (\<lambda>e. ''d41d8cd9'') scans_fs ?a = Inr ''2048-no-exif''"
    by simp
  from T 3 4 5 have 7: "createFileFingerprint (\<lambda>e. ''d41d8cd9'') scans_fs ?b
       = createFileFingerprint (\<lambda>e. ''d41d8cd9'') scans_fs ?a" by blast
  have 8: "findDuplicatesByExifAndSize (\<lambda>e. ''d41d8cd9'') scans_fs [?a, ?b] = [[?a, ?b]]"
    by code_simp
  from 1 2 3 4 6 7 8 show ?thesis by (intro conjI)
qed

section \<open>The survivor of a duplicate group\<close>


lemma sort_key_first:
  assumes "sort_key f xs = k # rest"
  shows "k \<in> set xs \<and> (\<forall>x \<in> set xs. f k \<le> f x)"
proof -
  have s: "set (k # rest) = set xs" using assms by (metis set_sort)
  have "sorted (map f (k # rest))" using assms by (metis sorted_sort_key)
  then have "\<forall>y \<in> set rest. f k \<le> f y" by auto
  with s show ?thesis by auto
qed




lemma removeDuplicateGroup_oldest:
  assumes "removeDuplicateGroup dry fs grp = Inr (fs', keepFile, duplicatesToRemove)"
  shows "keepFile \<in> set grp \<and> (\<forall>p \<in> set grp. mtimeOf fs keepFile \<le> mtimeOf fs p)
       \<and> set (keepFile # duplicatesToRemove) = set grp
       \<and> length (keepFile # duplicatesToRemove) = length grp"
proof -
  from assms have sk: "sort_key (mtimeOf fs) grp = keepFile # duplicatesToRemove"
    by (auto simp: removeDuplicateGroup_def split: if_splits list.splits)
  from sort_key_first [OF sk] have "keepFile \<in> set grp \<and> (\<forall>p \<in> set grp. mtimeOf fs keepFile \<le> mtimeOf fs p)" .
  moreover have "set (keepFile # duplicatesToRemove) = set grp" using sk by (metis set_sort)
  moreover have "length (keepFile # duplicatesToRemove) = length grp" using sk by (metis length_sort)
  ultimately show ?thesis by blast
qed

text \<open>
  The entry that both passes make of a file, the key that \<open>handleFilenameDuplicates\<close>
  groups it under, the path of the file kept from a group, and the paths that the
  loop over the groups removes.
\<close>

definition entryOf :: "organizer \<Rightarrow> filesystem \<Rightarrow> path \<Rightarrow> entry" where
  "entryOf this fs p =
     \<lparr>epath = p, hasSuffix = fileHasSuffix this (basename_noext p), emtime = mtimeOf fs p\<rparr>"








lemma foldr_fs_remove: "foldr fs_remove ps fs = filter (\<lambda>e. fst e \<notin> set ps) fs"
proof (induction ps)
  case Nil
  show ?case by simp
next
  case (Cons p ps)
  have "foldr fs_remove (p # ps) fs = fs_remove p (foldr fs_remove ps fs)" by simp
  also have "\<dots> = filter (\<lambda>e. fst e \<noteq> p) (filter (\<lambda>e. fst e \<notin> set ps) fs)"
    by (simp add: Cons fs_remove_def)
  also have "\<dots> = filter (\<lambda>e. fst e \<notin> set (p # ps)) fs"
    by (induction fs) auto
  finally show ?case .
qed

lemma map_of_filter_fst:
  "map_of (filter (\<lambda>e. P (fst e)) fs) p = (if P p then map_of fs p else None)"
  by (induction fs) auto

lemma pathExists_filter:
  "pathExists (filter (\<lambda>e. P (fst e)) fs) p \<longleftrightarrow> P p \<and> pathExists fs p"
  by (simp add: pathExists_def map_of_filter_fst)

lemma mtimeOf_filter:
  "P p \<Longrightarrow> mtimeOf (filter (\<lambda>e. P (fst e)) fs) p = mtimeOf fs p"
  by (simp add: mtimeOf_def map_of_filter_fst)























lemma entryOf_sel:
  "epath (entryOf this fs p) = p"
  "hasSuffix (entryOf this fs p) = fileHasSuffix this (basename_noext p)"
  "emtime (entryOf this fs p) = mtimeOf fs p"
  by (simp_all add: entryOf_def)

lemma map_epath_entryOf: "map epath (map (entryOf this fs) ps) = ps"
  by (induction ps) (simp_all add: entryOf_sel)



lemma pathExists_filter_notin:
  "pathExists (filter (\<lambda>e. fst e \<notin> S) fs) p \<longleftrightarrow> p \<notin> S \<and> pathExists fs p"
  using pathExists_filter [of "\<lambda>x. x \<notin> S" fs p] by simp















text \<open>
  What the standalone pass decides for a group: the file kept is a member that no
  member is older than, and all the other members are the files to remove.
\<close>

definition keepsOldest :: "filesystem \<Rightarrow> path list \<Rightarrow> path \<times> path list \<Rightarrow> bool" where
  "keepsOldest fs grp d =
     (fst d \<in> set grp \<and> (\<forall>p \<in> set grp. mtimeOf fs (fst d) \<le> mtimeOf fs p)
      \<and> set (fst d # snd d) = set grp \<and> length (fst d # snd d) = length grp)"

lemma removeDuplicateGroup_result:
  assumes "removeDuplicateGroup dry fs grp = Inr (fs', keepFile, duplicatesToRemove)"
  shows "keepsOldest fs grp (keepFile, duplicatesToRemove)
       \<and> fs' = (if dry then fs else filter (\<lambda>e. fst e \<notin> set duplicatesToRemove) fs)
       \<and> (length grp > 1 \<longrightarrow> (\<forall>p \<in> set grp. pathExists fs p))"
proof -
  from removeDuplicateGroup_oldest [OF assms]
  have 1: "keepsOldest fs grp (keepFile, duplicatesToRemove)" by (simp add: keepsOldest_def)
  from assms have 2: "fs' = (if dry then fs else filter (\<lambda>e. fst e \<notin> set duplicatesToRemove) fs)"
    by (auto simp: removeDuplicateGroup_def foldr_fs_remove split: if_splits list.splits)
  from assms have 3: "length grp > 1 \<longrightarrow> (\<forall>p \<in> set grp. pathExists fs p)"
    by (auto simp: removeDuplicateGroup_def list_all_iff split: if_splits)
  from 1 2 3 show ?thesis by blast
qed

lemma keepsOldest_before:
  assumes k: "keepsOldest (filter (\<lambda>e. fst e \<notin> S) fs) grp d"
    and ex: "length grp > 1 \<longrightarrow> (\<forall>p \<in> set grp. pathExists (filter (\<lambda>e. fst e \<notin> S) fs) p)"
  shows "keepsOldest fs grp d"
proof (cases "length grp > 1")
  case True
  with ex have "\<forall>p \<in> set grp. p \<notin> S" by (simp add: pathExists_filter_notin)
  then have m: "\<forall>p \<in> set grp. mtimeOf (filter (\<lambda>e. fst e \<notin> S) fs) p = mtimeOf fs p"
    using mtimeOf_filter [of "\<lambda>x. x \<notin> S" _ fs] by simp
  from k have "fst d \<in> set grp" by (simp add: keepsOldest_def)
  with k m show ?thesis by (simp add: keepsOldest_def)
next
  case False
  from k have l: "length (fst d # snd d) = length grp" and s: "set (fst d # snd d) = set grp"
    by (simp_all add: keepsOldest_def)
  from l have "Suc (length (snd d)) = length grp" by simp
  with False have "length (snd d) = 0" by arith
  then have "snd d = []" by simp
  with s have "set grp = {fst d}" by simp
  with k show ?thesis by (simp add: keepsOldest_def)
qed

lemma removeDuplicateFiles_result:
  assumes "removeDuplicateFiles dry fs groups = Inr (fs', decisions)"
  shows "list_all2 (keepsOldest fs) groups decisions
       \<and> fs' = (if dry then fs else filter (\<lambda>e. fst e \<notin> set (concat (map snd decisions))) fs)
       \<and> (\<forall>grp \<in> set groups. length grp > 1 \<longrightarrow> (\<forall>p \<in> set grp. pathExists fs p))"
  using assms
proof (induction groups arbitrary: fs fs' decisions)
  case Nil
  then show ?case by simp
next
  case (Cons grp groups)
  from Cons.prems obtain fs1 k dups ds where
    g: "removeDuplicateGroup dry fs grp = Inr (fs1, k, dups)"
    and r: "removeDuplicateFiles dry fs1 groups = Inr (fs', ds)"
    and d: "decisions = (k, dups) # ds"
    by (auto split: sum.splits prod.splits)
  note G = removeDuplicateGroup_result [OF g]
  note R = Cons.IH [OF r]
  from G have fs1: "fs1 = (if dry then fs else filter (\<lambda>e. fst e \<notin> set dups) fs)" by blast
  have all: "list_all2 (keepsOldest fs) groups ds"
  proof (cases dry)
    case True
    with fs1 R show ?thesis by simp
  next
    case False
    with fs1 have f: "fs1 = filter (\<lambda>e. fst e \<notin> set dups) fs" by simp
    from R have a: "list_all2 (keepsOldest fs1) groups ds"
      and b: "\<forall>grp \<in> set groups. length grp > 1 \<longrightarrow> (\<forall>p \<in> set grp. pathExists fs1 p)" by blast+
    have "keepsOldest fs grp' d'"
      if "grp' \<in> set groups" and "d' \<in> set ds" and "keepsOldest fs1 grp' d'" for grp' d'
      using keepsOldest_before [of "set dups" fs grp' d'] that(1,3) b unfolding f by blast
    with a show ?thesis
      by (rule list.rel_mono_strong)
  qed
  have ex: "\<forall>grp' \<in> set groups. length grp' > 1 \<longrightarrow> (\<forall>p \<in> set grp'. pathExists fs p)"
  proof (cases dry)
    case True
    with fs1 R show ?thesis by simp
  next
    case False
    with fs1 have f: "fs1 = filter (\<lambda>e. fst e \<notin> set dups) fs" by simp
    from R have "\<forall>grp \<in> set groups. length grp > 1 \<longrightarrow> (\<forall>p \<in> set grp. pathExists fs1 p)" by blast
    then show ?thesis unfolding f by (simp add: pathExists_filter_notin)
  qed
  have fs': "fs' = (if dry then fs else filter (\<lambda>e. fst e \<notin> set (concat (map snd decisions))) fs)"
  proof (cases dry)
    case True
    with fs1 R show ?thesis by simp
  next
    case False
    with fs1 have f: "fs1 = filter (\<lambda>e. fst e \<notin> set dups) fs" by simp
    from R False have "fs' = filter (\<lambda>e. fst e \<notin> set (concat (map snd ds))) fs1" by simp
    also have "\<dots> = filter (\<lambda>e. fst e \<notin> set (concat (map snd decisions))) fs"
      unfolding f d by (induction fs) auto
    finally show ?thesis using False by simp
  qed
  from G all ex fs' d show ?case by simp
qed










section \<open>Names that are free in a directory\<close>

text \<open>\<^verbatim>\<open>`${prefix}_${String(counter).padStart(3, '0')}${ext}`\<close>\<close>

definition counterName :: "string \<Rightarrow> string \<Rightarrow> nat \<Rightarrow> string" where
  "counterName prefix ext counter =
     prefix @ ''_'' @ padStart 3 CHR ''0'' (numberToString counter) @ ext"

lemma padStart_numberToString_inj:
  assumes "padStart k CHR ''0'' (numberToString a) = padStart k CHR ''0'' (numberToString b)"
  shows "a = b"
proof -
  have "digits_val (padStart k CHR ''0'' (numberToString n)) = n" for n
    by (simp add: padStart_def digits_val_leading_zeros digits_val_numberToString)
  with assms show ?thesis by metis
qed

lemma counterName_inj:
  assumes "counterName prefix ext a = counterName prefix ext b"
  shows "a = b"
proof -
  from assms have "padStart 3 CHR ''0'' (numberToString a) = padStart 3 CHR ''0'' (numberToString b)"
    by (simp add: counterName_def)
  then show ?thesis by (rule padStart_numberToString_inj)
qed

lemma pathExists_iff: "pathExists fs p \<longleftrightarrow> p \<in> fst ` set fs"
proof -
  have "pathExists fs p \<longleftrightarrow> map_of fs p \<noteq> None"
    by (simp add: pathExists_def split: option.splits)
  also have "\<dots> \<longleftrightarrow> p \<in> fst ` set fs"
    by (simp add: map_of_eq_None_iff)
  finally show ?thesis .
qed

text \<open>
  The paths of the file system that a counter from \<open>counter\<close> on would collide with:
  each taken name removes one of them, which is why the search below ends.
\<close>

definition laterCollisions :: "filesystem \<Rightarrow> string list \<Rightarrow> string \<Rightarrow> string \<Rightarrow> nat \<Rightarrow> path list" where
  "laterCollisions fs dir prefix ext counter =
     filter (\<lambda>p. \<exists>k \<ge> counter. p = Path dir (counterName prefix ext k)) (map fst fs)"

lemma laterCollisions_decreases:
  assumes "pathExists fs (Path dir (counterName prefix ext counter))"
  shows "length (laterCollisions fs dir prefix ext (Suc counter))
       < length (laterCollisions fs dir prefix ext counter)"
proof -
  let ?P = "\<lambda>c p. \<exists>k \<ge> c. p = Path dir (counterName prefix ext k)"
  let ?here = "Path dir (counterName prefix ext counter)"
  have imp: "?P (Suc counter) p \<Longrightarrow> ?P counter p" for p
  proof -
    assume "?P (Suc counter) p"
    then obtain k where "k \<ge> Suc counter" "p = Path dir (counterName prefix ext k)" by blast
    then have "k \<ge> counter \<and> p = Path dir (counterName prefix ext k)" by simp
    then show "?P counter p" by blast
  qed
  have "filter (?P (Suc counter)) (filter (?P counter) (map fst fs))
        = filter (\<lambda>p. ?P counter p \<and> ?P (Suc counter) p) (map fst fs)"
    by (simp only: filter_filter)
  also have "\<dots> = filter (?P (Suc counter)) (map fst fs)"
    by (rule filter_cong [OF refl]) (use imp in blast)
  finally have sub: "filter (?P (Suc counter)) (map fst fs)
           = filter (?P (Suc counter)) (filter (?P counter) (map fst fs))" by simp
  have "?here \<in> set (map fst fs)" using assms by (simp add: pathExists_iff)
  moreover have "?P counter ?here" by blast
  ultimately have mem: "?here \<in> set (filter (?P counter) (map fst fs))" by simp
  have notP: "\<not> ?P (Suc counter) ?here"
  proof
    assume "?P (Suc counter) ?here"
    then obtain k where k: "k \<ge> Suc counter"
      and eq: "counterName prefix ext counter = counterName prefix ext k"
      by auto
    from counterName_inj [OF eq] k show False by simp
  qed
  have "length (filter (?P (Suc counter)) (filter (?P counter) (map fst fs)))
        < length (filter (?P counter) (map fst fs))"
    using mem notP by (rule length_filter_less)
  with sub show ?thesis
    by (simp only: laterCollisions_def)
qed

text \<open>
  The search of \<open>findUniqueFilename\<close>, in both of its loops: the first counter, from
  the given one on, whose name is not taken.  There is no upper limit.
\<close>

function firstFreeName :: "filesystem \<Rightarrow> string list \<Rightarrow> string \<Rightarrow> string \<Rightarrow> nat \<Rightarrow> path" where
  "firstFreeName fs dir prefix ext counter =
     (if pathExists fs (Path dir (counterName prefix ext counter))
      then firstFreeName fs dir prefix ext (Suc counter)
      else Path dir (counterName prefix ext counter))"
  by pat_completeness auto
termination
  by (relation "measure (\<lambda>(fs, dir, prefix, ext, counter). length (laterCollisions fs dir prefix ext counter))")
     (simp_all add: laterCollisions_decreases)

declare firstFreeName.simps [simp del]

text \<open>The pattern \<^verbatim>\<open>^(\d{4}-\d{2}-\d{2})_(\d{3})$\<close> on a whole string.\<close>

definition dateCounterPattern :: "string \<Rightarrow> bool" where
  "dateCounterPattern s =
     (length s = 14 \<and>
      list_all isDigit (take 4 s) \<and> take 1 (drop 4 s) = ''-'' \<and>
      list_all isDigit (take 2 (drop 5 s)) \<and> take 1 (drop 7 s) = ''-'' \<and>
      list_all isDigit (take 2 (drop 8 s)) \<and> take 1 (drop 10 s) = ''_'' \<and>
      list_all isDigit (drop 11 s))"

text \<open>
  \<^verbatim>\<open>parseInt(counterStr, 10)\<close> on three digits is their value.  A name without the
  date pattern gets \<^verbatim>\<open>_001\<close>, \<^verbatim>\<open>_002\<close>, ... appended; a name with it has its own
  counter raised.
\<close>

definition findUniqueFilename :: "filesystem \<Rightarrow> path \<Rightarrow> path" where
  "findUniqueFilename fs targetPath =
     (if \<not> pathExists fs targetPath then targetPath
      else
        let ext = extname targetPath;
            baseName = basename_noext targetPath;
            dir = dirname targetPath
        in if \<not> dateCounterPattern baseName
           then firstFreeName fs dir baseName ext 1
           else
             let datePrefix = take 10 baseName;
                 counterStr = drop 11 baseName;
                 counter = digits_val counterStr
             in firstFreeName fs dir datePrefix ext (counter + 1))"

text \<open>
  The search of \<open>generateNewPath\<close>, which stops when the path is free or is the
  file's own, and throws once the counter has passed 9999.
\<close>

function generateLoop ::
  "filesystem \<Rightarrow> path \<Rightarrow> string list \<Rightarrow> string \<Rightarrow> string \<Rightarrow> nat \<Rightarrow> error + path" where
  "generateLoop fs originalPath targetDir baseFilename ext counter =
     (let newPath = Path targetDir (counterName baseFilename ext counter)
      in if pathExists fs newPath \<and> newPath \<noteq> originalPath
         then (if counter + 1 > 9999 then Inl TooManyConflicts
               else generateLoop fs originalPath targetDir baseFilename ext (counter + 1))
         else Inr newPath)"
  by pat_completeness auto
termination
  by (relation "measure (\<lambda>(fs, originalPath, targetDir, baseFilename, ext, counter). 10000 - counter)")
     auto

declare generateLoop.simps [simp del]

text \<open>
  \<open>generateNewPath\<close> after it has computed the target directory, the base file name
  (the date) and the lower-case extension from its arguments.
\<close>

definition generateNewPath ::
  "filesystem \<Rightarrow> path \<Rightarrow> string list \<Rightarrow> string \<Rightarrow> error + path" where
  "generateNewPath fs originalPath targetDir baseFilename =
     generateLoop fs originalPath targetDir baseFilename (toLowerCase (extname originalPath)) 1"

lemma firstFreeName_free: "\<not> pathExists fs (firstFreeName fs dir prefix ext counter)"
proof (induction fs dir prefix ext counter rule: firstFreeName.induct)
  case (1 fs dir prefix ext counter)
  show ?case
  proof (cases "pathExists fs (Path dir (counterName prefix ext counter))")
    case True
    with 1 show ?thesis by (subst firstFreeName.simps) simp
  next
    case False
    then show ?thesis by (subst firstFreeName.simps) simp
  qed
qed

lemma findUniqueFilename_free: "\<not> pathExists fs (findUniqueFilename fs targetPath)"
  by (simp add: findUniqueFilename_def Let_def firstFreeName_free)

lemma findUniqueFilename_same: "\<not> pathExists fs targetPath \<Longrightarrow> findUniqueFilename fs targetPath = targetPath"
  by (simp add: findUniqueFilename_def)

lemma firstFreeName_skips:
  assumes "\<forall>k. counter \<le> k \<and> k < n \<longrightarrow> pathExists fs (Path dir (counterName prefix ext k))"
    and "\<not> pathExists fs (Path dir (counterName prefix ext n))" and "counter \<le> n"
  shows "firstFreeName fs dir prefix ext counter = Path dir (counterName prefix ext n)"
  using assms
proof (induction "n - counter" arbitrary: counter)
  case 0
  then have "counter = n" by simp
  with 0 show ?case by (subst firstFreeName.simps) simp
next
  case (Suc d)
  then have lt: "counter < n" by simp
  with Suc.prems have ex: "pathExists fs (Path dir (counterName prefix ext counter))" by simp
  have "firstFreeName fs dir prefix ext (Suc counter) = Path dir (counterName prefix ext n)"
  proof (rule Suc.hyps(1))
    show "d = n - Suc counter" using Suc.hyps(2) by simp
    show "\<forall>k. Suc counter \<le> k \<and> k < n \<longrightarrow> pathExists fs (Path dir (counterName prefix ext k))"
      using Suc.prems(1) by simp
    show "\<not> pathExists fs (Path dir (counterName prefix ext n))" by (rule Suc.prems(2))
    show "Suc counter \<le> n" using lt by simp
  qed
  with ex show ?case by (subst firstFreeName.simps) simp
qed

lemma generateLoop_exhausted:
  assumes "\<forall>k. counter \<le> k \<and> k \<le> 9999 \<longrightarrow>
             pathExists fs (Path dir (counterName base ext k)) \<and> Path dir (counterName base ext k) \<noteq> orig"
    and "counter \<le> 9999"
  shows "generateLoop fs orig dir base ext counter = Inl TooManyConflicts"
  using assms
proof (induction "9999 - counter" arbitrary: counter)
  case 0
  then have c: "counter = 9999" by simp
  with 0 have "pathExists fs (Path dir (counterName base ext 9999)) \<and> Path dir (counterName base ext 9999) \<noteq> orig"
    by simp
  with c show ?case by (subst generateLoop.simps) (simp add: Let_def)
next
  case (Suc d)
  then have lt: "counter < 9999" by simp
  from Suc.prems have here: "pathExists fs (Path dir (counterName base ext counter)) \<and> Path dir (counterName base ext counter) \<noteq> orig"
    by simp
  have "generateLoop fs orig dir base ext (counter + 1) = Inl TooManyConflicts"
  proof (rule Suc.hyps(1))
    show "d = 9999 - (counter + 1)" using Suc.hyps(2) by simp
    show "\<forall>k. counter + 1 \<le> k \<and> k \<le> 9999 \<longrightarrow>
             pathExists fs (Path dir (counterName base ext k)) \<and> Path dir (counterName base ext k) \<noteq> orig"
      using Suc.prems(1) by simp
    show "counter + 1 \<le> 9999" using lt by simp
  qed
  with here lt show ?case by (subst generateLoop.simps) (simp add: Let_def)
qed

text \<open>A directory that holds \<^verbatim>\<open>2023-01-15_001.jpg\<close> to \<^verbatim>\<open>2023-01-15_9999.jpg\<close>.\<close>

definition tiny :: fileinfo where
  "tiny = \<lparr>fsize = 1, mtime = 1, exifr_parse = ParseNothing, readJson = ParseFails\<rparr>"

definition taken :: "nat \<Rightarrow> filesystem" where
  "taken n = map (\<lambda>k. (Path [''target'', ''2023'', ''01''] (counterName ''2023-01-15'' ''.jpg'' k), tiny)) [1..<Suc n]"

definition crowded :: filesystem where
  "crowded = taken 9999"

lemma pathExists_taken:
  "pathExists (taken n) (Path [''target'', ''2023'', ''01''] (counterName ''2023-01-15'' ''.jpg'' k))
     \<longleftrightarrow> 1 \<le> k \<and> k \<le> n"
proof -
  let ?f = "\<lambda>j. Path [''target'', ''2023'', ''01''] (counterName ''2023-01-15'' ''.jpg'' j)"
  have img: "fst ` set (taken n) = ?f ` {1..<Suc n}"
    unfolding taken_def set_map image_image set_upt by simp
  have "?f k \<in> ?f ` {1..<Suc n} \<longleftrightarrow> k \<in> {1..<Suc n}"
  proof
    assume "?f k \<in> ?f ` {1..<Suc n}"
    then obtain j where j: "j \<in> {1..<Suc n}" and "?f k = ?f j" by blast
    then have "counterName ''2023-01-15'' ''.jpg'' k = counterName ''2023-01-15'' ''.jpg'' j" by simp
    from counterName_inj [OF this] j show "k \<in> {1..<Suc n}" by simp
  next
    assume "k \<in> {1..<Suc n}"
    then show "?f k \<in> ?f ` {1..<Suc n}" by (rule imageI)
  qed
  then show ?thesis unfolding pathExists_iff img by auto
qed

lemma pathExists_crowded:
  "pathExists crowded (Path [''target'', ''2023'', ''01''] (counterName ''2023-01-15'' ''.jpg'' k))
     \<longleftrightarrow> 1 \<le> k \<and> k \<le> 9999"
  unfolding crowded_def by (rule pathExists_taken)

text \<open>
  C3.  With the names \<^verbatim>\<open>2023-01-15_001.jpg\<close> to \<^verbatim>\<open>2023-01-15_9999.jpg\<close> taken,
  \<open>findUniqueFilename\<close> does not fail: it goes on to the counter 10000.  The search
  of \<open>generateNewPath\<close> in the same directory throws "too many conflicts".
\<close>

theorem findUniqueFilename_has_no_ceiling:
  "findUniqueFilename crowded (Path [''target'', ''2023'', ''01''] ''2023-01-15_001.jpg'')
     = Path [''target'', ''2023'', ''01''] ''2023-01-15_10000.jpg''
   \<and> generateNewPath crowded (Path [''in''] ''IMG_0001.JPG'') [''target'', ''2023'', ''01''] ''2023-01-15''
     = Inl TooManyConflicts"
proof -
  let ?d = "[''target'', ''2023'', ''01'']"
  let ?t = "Path ?d ''2023-01-15_001.jpg''"
  have n1: "counterName ''2023-01-15'' ''.jpg'' 1 = ''2023-01-15_001.jpg''" by code_simp
  have n10000: "counterName ''2023-01-15'' ''.jpg'' 10000 = ''2023-01-15_10000.jpg''"
    by (simp add: counterName_def padStart_def numberToString.simps digit_char_def)
  have ex: "pathExists crowded ?t"
    using pathExists_crowded [of 1] unfolding n1 by simp
  have e: "extname ?t = ''.jpg''" by code_simp
  have b: "basename_noext ?t = ''2023-01-15_001''" by code_simp
  have p: "dateCounterPattern ''2023-01-15_001''" by code_simp
  have t10: "take 10 ''2023-01-15_001'' = ''2023-01-15''" by code_simp
  have c: "digits_val (drop 11 ''2023-01-15_001'') + 1 = 2" by code_simp
  have all: "\<forall>k. 2 \<le> k \<and> k < 10000 \<longrightarrow> pathExists crowded (Path ?d (counterName ''2023-01-15'' ''.jpg'' k))"
    unfolding pathExists_crowded by simp
  have none: "\<not> pathExists crowded (Path ?d (counterName ''2023-01-15'' ''.jpg'' 10000))"
    unfolding pathExists_crowded by simp
  have free: "firstFreeName crowded ?d ''2023-01-15'' ''.jpg'' 2
                = Path ?d (counterName ''2023-01-15'' ''.jpg'' 10000)"
    using all none by (rule firstFreeName_skips) simp
  have 1: "findUniqueFilename crowded ?t = Path ?d ''2023-01-15_10000.jpg''"
    unfolding findUniqueFilename_def Let_def e b t10 c path.sel free n10000
    using ex p by (simp only: simp_thms if_True if_False)
  have lower: "toLowerCase (extname (Path [''in''] ''IMG_0001.JPG'')) = ''.jpg''" by code_simp
  have all': "\<forall>k. 1 \<le> k \<and> k \<le> 9999 \<longrightarrow>
       pathExists crowded (Path ?d (counterName ''2023-01-15'' ''.jpg'' k))
       \<and> Path ?d (counterName ''2023-01-15'' ''.jpg'' k) \<noteq> Path [''in''] ''IMG_0001.JPG''"
    unfolding pathExists_crowded by simp
  have "generateLoop crowded (Path [''in''] ''IMG_0001.JPG'') ?d ''2023-01-15'' ''.jpg'' 1 = Inl TooManyConflicts"
    using all' by (rule generateLoop_exhausted) simp
  then have 2: "generateNewPath crowded (Path [''in''] ''IMG_0001.JPG'') ?d ''2023-01-15'' = Inl TooManyConflicts"
    unfolding generateNewPath_def lower .
  from 1 2 show ?thesis by (intro conjI)
qed

section \<open>The persistent fingerprint cache\<close>

subsection \<open>Maps with JavaScript values as keys\<close>

text \<open>
  A key of a Map is compared by value when it is a primitive (\<^verbatim>\<open>undefined\<close>, \<^verbatim>\<open>null\<close>,
  a boolean, a number, a string) and by identity when it is an array or an object;
  every array or object that \<^verbatim>\<open>JSON.parse\<close> returns is a new one, so such a key
  always adds an entry.
\<close>

fun isPrimitive :: "json option \<Rightarrow> bool" where
  "isPrimitive (Some (JArr xs)) = False"
| "isPrimitive (Some (JObj kvs)) = False"
| "isPrimitive v = True"

definition js_map_set :: "json option \<Rightarrow> 'v \<Rightarrow> (json option \<times> 'v) list \<Rightarrow> (json option \<times> 'v) list" where
  "js_map_set k v m = (if isPrimitive k then map_set k v m else m @ [(k, v)])"

text \<open>The path as the string that the program holds.\<close>

definition pathString :: "path \<Rightarrow> string" where
  "pathString p = concat (map (\<lambda>segment. ''/'' @ segment) (dirname p)) @ ''/'' @ basename p"

definition fileKey :: "path \<Rightarrow> json option" where
  "fileKey p = Some (JStr (pathString p))"

subsection \<open>loadHashCache\<close>

text \<open>The cache in memory: a Map from whatever the snapshot holds as key to whatever it
  holds as entry.\<close>

type_synonym hash_cache = "(json option \<times> json option) list"

text \<open>
  \<^verbatim>\<open>const [file, entry] = element\<close>: an array gives its first two elements, a string
  its first two characters, \<^verbatim>\<open>undefined\<close> where there is none; anything else is not
  iterable, which is a TypeError.
\<close>

fun destructurePair :: "json \<Rightarrow> error + json option \<times> json option" where
  "destructurePair (JArr xs) =
     Inr (if length xs > 0 then Some (xs ! 0) else None, if length xs > 1 then Some (xs ! 1) else None)"
| "destructurePair (JStr s) =
     Inr (if length s > 0 then Some (JStr [s ! 0]) else None,
          if length s > 1 then Some (JStr [s ! 1]) else None)"
| "destructurePair j = Inl TypeError"

fun loadEntries :: "json list \<Rightarrow> hash_cache \<Rightarrow> error + hash_cache" where
  "loadEntries [] cache = Inr cache"
| "loadEntries (element # entries) cache =
     (case destructurePair element of
        Inl e \<Rightarrow> Inl e
      | Inr (file, entry) \<Rightarrow> loadEntries entries (js_map_set file entry cache))"

text \<open>
  The statements inside \<^verbatim>\<open>try\<close>, once the snapshot has been read: \<open>Inl\<close> is an
  exception thrown there.  The version tag of the document is not read.  (On an
  array \<^verbatim>\<open>entries\<close> is a method, which is not an array either.)
\<close>

definition cacheFromData :: "json \<Rightarrow> error + hash_cache" where
  "cacheFromData cacheData =
     (case getProp cacheData ''entries'' of
        Inl e \<Rightarrow> Inl e
      | Inr entries \<Rightarrow>
          (case entries of
             Some (JArr elements) \<Rightarrow> loadEntries elements []
           | _ \<Rightarrow> Inr []))"

text \<open>
  The body of \<^verbatim>\<open>try\<close>: \<open>Inr None\<close> when the snapshot is absent and control leaves
  the \<^verbatim>\<open>if\<close> without a \<^verbatim>\<open>return\<close>.
\<close>

definition loadHashCache_try :: "filesystem \<Rightarrow> path \<Rightarrow> error + hash_cache option" where
  "loadHashCache_try fs hashCacheFile =
     (case map_of fs hashCacheFile of
        None \<Rightarrow> Inr None
      | Some f \<Rightarrow>
          (case readJson f of
             ReadFails \<Rightarrow> Inl ReadError
           | ParseFails \<Rightarrow> Inl SyntaxError
           | Parsed cacheData \<Rightarrow>
               (case cacheFromData cacheData of Inl e \<Rightarrow> Inl e | Inr cache \<Rightarrow> Inr (Some cache))))"

text \<open>
  \<open>loadHashCache\<close>: \<^verbatim>\<open>catch\<close> logs the exception, and both it and the absent
  snapshot end in \<^verbatim>\<open>return new Map()\<close>.  The result is a sum so that "no exception
  leaves the function" is a statement about it.
\<close>

definition loadHashCache :: "filesystem \<Rightarrow> path \<Rightarrow> error + hash_cache" where
  "loadHashCache fs hashCacheFile =
     (case loadHashCache_try fs hashCacheFile of
        Inl e \<Rightarrow> Inr []
      | Inr None \<Rightarrow> Inr []
      | Inr (Some cache) \<Rightarrow> Inr cache)"

text \<open>A document with one property set, as \<^verbatim>\<open>{...cacheData, [k]: v}\<close> would make it.\<close>

fun setProp :: "string \<Rightarrow> json \<Rightarrow> json \<Rightarrow> json" where
  "setProp k v (JObj kvs) = JObj (filter (\<lambda>kv. fst kv \<noteq> k) kvs @ [(k, v)])"
| "setProp k v j = j"

lemma loadHashCache_returns: "\<exists>cache. loadHashCache fs hashCacheFile = Inr cache"
  by (simp add: loadHashCache_def split: sum.splits option.splits)

lemma loadHashCache_absent:
  "\<not> pathExists fs hashCacheFile \<Longrightarrow> loadHashCache fs hashCacheFile = Inr []"
  by (simp add: loadHashCache_def loadHashCache_try_def pathExists_def split: option.splits)

lemma loadHashCache_unreadable:
  assumes "stat fs hashCacheFile = Inr f" and "readJson f = ReadFails \<or> readJson f = ParseFails"
  shows "loadHashCache fs hashCacheFile = Inr []"
proof -
  from assms(1) have "map_of fs hashCacheFile = Some f"
    by (simp add: stat_def split: option.splits)
  with assms(2) show ?thesis
    by (auto simp: loadHashCache_def loadHashCache_try_def)
qed

text \<open>
  C8.  \<open>loadHashCache\<close> always returns a cache and never throws; when the snapshot
  is absent, cannot be read or is not JSON, the cache it returns is empty.
\<close>

theorem loadHashCache_never_fails:
  "(\<exists>cache. loadHashCache fs hashCacheFile = Inr cache)
   \<and> (\<not> pathExists fs hashCacheFile \<longrightarrow> loadHashCache fs hashCacheFile = Inr [])
   \<and> (stat fs hashCacheFile = Inr f \<and> (readJson f = ReadFails \<or> readJson f = ParseFails) \<longrightarrow>
        loadHashCache fs hashCacheFile = Inr [])"
  using loadHashCache_returns [of fs hashCacheFile] loadHashCache_absent [of fs hashCacheFile]
    loadHashCache_unreadable [of fs hashCacheFile f]
  by blast

definition cachePath :: path where
  "cachePath = Path [''target''] ''.photo-organizer-cache.json''"

definition garbled :: fileinfo where
  "garbled = \<lparr>fsize = 17, mtime = 1700000000000, exifr_parse = ParseThrows, readJson = ParseFails\<rparr>"

definition locked :: fileinfo where
  "locked = \<lparr>fsize = 300, mtime = 1700000000000, exifr_parse = ParseThrows, readJson = ReadFails\<rparr>"

theorem loadHashCache_never_fails_witness:
  "\<not> pathExists [] cachePath \<and> loadHashCache [] cachePath = Inr []
   \<and> stat [(cachePath, garbled)] cachePath = Inr garbled \<and> readJson garbled = ParseFails
   \<and> loadHashCache [(cachePath, garbled)] cachePath = Inr []
   \<and> stat [(cachePath, locked)] cachePath = Inr locked \<and> readJson locked = ReadFails
   \<and> loadHashCache [(cachePath, locked)] cachePath = Inr []"
proof -
  have 1: "\<not> pathExists [] cachePath" by (simp add: pathExists_def)
  note 2 = loadHashCache_never_fails [of "[]" cachePath garbled, THEN conjunct2, THEN conjunct1, rule_format, OF 1]
  have 3: "stat [(cachePath, garbled)] cachePath = Inr garbled" by (simp add: stat_def)
  have 4: "readJson garbled = ParseFails" by (simp add: garbled_def)
  note 5 = loadHashCache_never_fails [of "[(cachePath, garbled)]" cachePath garbled,
      THEN conjunct2, THEN conjunct2, rule_format, OF conjI [OF 3 disjI2 [OF 4]]]
  have 6: "stat [(cachePath, locked)] cachePath = Inr locked" by (simp add: stat_def)
  have 7: "readJson locked = ReadFails" by (simp add: locked_def)
  note 8 = loadHashCache_never_fails [of "[(cachePath, locked)]" cachePath locked,
      THEN conjunct2, THEN conjunct2, rule_format, OF conjI [OF 6 disjI1 [OF 7]]]
  from 1 2 3 4 5 6 7 8 show ?thesis by (intro conjI)
qed

subsection \<open>The version tag\<close>

lemma map_of_filter_other:
  "k \<noteq> k' \<Longrightarrow> map_of (filter (\<lambda>kv. fst kv \<noteq> k') xs) k = map_of xs k"
  by (induction xs) auto

lemma getProp_setProp_other:
  assumes "k \<noteq> k'"
  shows "getProp (setProp k' v j) k = getProp j k"
proof (cases j)
  case (JObj kvs)
  have "map_of (rev (filter (\<lambda>kv. fst kv \<noteq> k') kvs @ [(k', v)])) k
        = map_of (filter (\<lambda>kv. fst kv \<noteq> k') (rev kvs)) k"
    using assms by (simp add: rev_filter)
  also have "\<dots> = map_of (rev kvs) k"
    using assms by (rule map_of_filter_other)
  finally show ?thesis using JObj by simp
qed simp_all

lemma cacheFromData_version: "cacheFromData (setProp ''version'' v cacheData) = cacheFromData cacheData"
proof -
  have "getProp (setProp ''version'' v cacheData) ''entries'' = getProp cacheData ''entries''"
    by (rule getProp_setProp_other) simp
  then show ?thesis by (simp add: cacheFromData_def)
qed

text \<open>
  C9, as amended.  The version tag is not read: whatever value it is given, the
  snapshot loads to the same cache, and no error is raised.
\<close>

theorem version_tag_is_ignored:
  "cacheFromData (setProp ''version'' v cacheData) = cacheFromData cacheData
   \<and> loadHashCache ((hashCacheFile, f\<lparr>readJson := Parsed (setProp ''version'' v cacheData)\<rparr>) # fs) hashCacheFile
       = loadHashCache ((hashCacheFile, f\<lparr>readJson := Parsed cacheData\<rparr>) # fs) hashCacheFile
   \<and> (\<exists>cache. loadHashCache ((hashCacheFile, f\<lparr>readJson := Parsed (setProp ''version'' v cacheData)\<rparr>) # fs)
          hashCacheFile = Inr cache)"
proof (intro conjI)
  show "cacheFromData (setProp ''version'' v cacheData) = cacheFromData cacheData"
    by (rule cacheFromData_version)
  show "loadHashCache ((hashCacheFile, f\<lparr>readJson := Parsed (setProp ''version'' v cacheData)\<rparr>) # fs) hashCacheFile
       = loadHashCache ((hashCacheFile, f\<lparr>readJson := Parsed cacheData\<rparr>) # fs) hashCacheFile"
    by (simp add: cacheFromData_version loadHashCache_def loadHashCache_try_def)
  show "\<exists>cache. loadHashCache ((hashCacheFile, f\<lparr>readJson := Parsed (setProp ''version'' v cacheData)\<rparr>) # fs)
          hashCacheFile = Inr cache"
    by (rule loadHashCache_returns)
qed

text \<open>A snapshot of a version that does not exist yet, with one entry.\<close>

definition future_snapshot :: json where
  "future_snapshot =
     JObj [(''version'', JStr ''99.0''),
           (''lastUpdated'', JStr ''2031-01-01T00:00:00.000Z''),
           (''entries'',
              JArr [JArr [JStr ''/target/2023/01/2023-01-15_001.jpg'',
                          JObj [(''hash'', JStr ''100-no-exif''), (''modTime'', JNum 1000)]]])]"

definition future_cache_file :: fileinfo where
  "future_cache_file =
     \<lparr>fsize = 250, mtime = 1900000000000, exifr_parse = ParseThrows, readJson = Parsed future_snapshot\<rparr>"

theorem future_version_is_loaded:
  "getProp future_snapshot ''version'' = Inr (Some (JStr ''99.0''))
   \<and> loadHashCache [(cachePath, future_cache_file)] cachePath
       = Inr [(Some (JStr ''/target/2023/01/2023-01-15_001.jpg''),
               Some (JObj [(''hash'', JStr ''100-no-exif''), (''modTime'', JNum 1000)]))]
   \<and> loadHashCache [(cachePath, future_cache_file)] cachePath \<noteq> Inr []"
proof -
  have 1: "getProp future_snapshot ''version'' = Inr (Some (JStr ''99.0''))" by code_simp
  have 2: "loadHashCache [(cachePath, future_cache_file)] cachePath
       = Inr [(Some (JStr ''/target/2023/01/2023-01-15_001.jpg''),
               Some (JObj [(''hash'', JStr ''100-no-exif''), (''modTime'', JNum 1000)]))]" by code_simp
  from 2 have 3: "loadHashCache [(cachePath, future_cache_file)] cachePath \<noteq> Inr []" by simp
  from 1 2 3 show ?thesis by (intro conjI)
qed

subsection \<open>Writing the snapshot\<close>

text \<open>
  \<^verbatim>\<open>fs.writeJson(file, data, { spaces: 2 })\<close> writes \<^verbatim>\<open>JSON.stringify(data, null, 2)\<close>
  and a final newline.  The text matters here for its length, the size of the
  snapshot file.
\<close>

definition escapeChar :: "char \<Rightarrow> string" where
  "escapeChar c =
     (if c = CHR 0x22 then [CHR 0x5C, CHR 0x22]
      else if c = CHR 0x5C then [CHR 0x5C, CHR 0x5C]
      else if c = CHR 0x08 then [CHR 0x5C, CHR ''b'']
      else if c = CHR 0x09 then [CHR 0x5C, CHR ''t'']
      else if c = CHR 0x0A then [CHR 0x5C, CHR ''n'']
      else if c = CHR 0x0C then [CHR 0x5C, CHR ''f'']
      else if c = CHR 0x0D then [CHR 0x5C, CHR ''r'']
      else if (of_char c :: nat) < 32
      then [CHR 0x5C, CHR ''u'', CHR ''0'', CHR ''0'',
            ''0123456789abcdef'' ! (of_char c div 16), ''0123456789abcdef'' ! (of_char c mod 16)]
      else [c])"

definition quoteJSONString :: "string \<Rightarrow> string" where
  "quoteJSONString s = [CHR 0x22] @ concat (map escapeChar s) @ [CHR 0x22]"

definition intToString :: "int \<Rightarrow> string" where
  "intToString n = (if n < 0 then ''-'' @ numberToString (nat (- n)) else numberToString (nat n))"

definition indent :: "nat \<Rightarrow> string" where
  "indent level = replicate (2 * level) CHR '' ''"

fun joinLines :: "string list \<Rightarrow> string" where
  "joinLines [] = []"
| "joinLines [x] = x"
| "joinLines (x # y # ys) = x @ [CHR '','', CHR 0x0A] @ joinLines (y # ys)"

fun stringify :: "nat \<Rightarrow> json \<Rightarrow> string" where
  "stringify level JNull = ''null''"
| "stringify level (JBool b) = (if b then ''true'' else ''false'')"
| "stringify level (JNum n) = intToString n"
| "stringify level (JStr s) = quoteJSONString s"
| "stringify level (JArr xs) =
     (if xs = [] then ''[]''
      else ''['' @ [CHR 0x0A]
           @ joinLines (map (\<lambda>x. indent (level + 1) @ stringify (level + 1) x) xs)
           @ [CHR 0x0A] @ indent level @ '']'')"
| "stringify level (JObj kvs) =
     (if kvs = [] then ''{}''
      else ''{'' @ [CHR 0x0A]
           @ joinLines (map (\<lambda>kv. indent (level + 1) @ quoteJSONString (fst kv) @ '': ''
                                    @ stringify (level + 1) (snd kv)) kvs)
           @ [CHR 0x0A] @ indent level @ ''}'')"

text \<open>
  The run's surroundings: the hash function, and the clock, read as milliseconds for
  the modification time of every file the run writes and as the ISO string it puts
  into the snapshot.
\<close>

record run_env =
  md5 :: "(string \<times> json) list \<Rightarrow> string"
  now :: int
  nowISO :: string

text \<open>
  The snapshot after the write: its size, its time, and what reading it back gives.
  \<^verbatim>\<open>exifr\<close> does not know the format of a JSON file.
\<close>

definition writeJson :: "run_env \<Rightarrow> path \<Rightarrow> json \<Rightarrow> filesystem \<Rightarrow> filesystem" where
  "writeJson env p data fs =
     map_set p \<lparr>fsize = length (stringify 0 data) + 1, mtime = now env,
                exifr_parse = ParseThrows, readJson = Parsed data\<rparr> fs"

text \<open>
  \<^verbatim>\<open>{ version: '1.0', lastUpdated: ..., entries: Array.from(existingCache.entries()) }\<close>
  as \<^verbatim>\<open>JSON.stringify\<close> writes it: \<^verbatim>\<open>undefined\<close> in an array becomes \<^verbatim>\<open>null\<close>.
\<close>

definition orNull :: "json option \<Rightarrow> json" where
  "orNull v = (case v of None \<Rightarrow> JNull | Some j \<Rightarrow> j)"

definition cacheData :: "run_env \<Rightarrow> hash_cache \<Rightarrow> json" where
  "cacheData env existingCache =
     JObj [(''version'', JStr ''1.0''),
           (''lastUpdated'', JStr (nowISO env)),
           (''entries'', JArr (map (\<lambda>kv. JArr [orNull (fst kv), orNull (snd kv)]) existingCache))]"

text \<open>
  The entry \<^verbatim>\<open>{ hash, modTime }\<close>; a property whose value is \<^verbatim>\<open>undefined\<close> reads
  like an absent one and is not written.
\<close>

definition cacheEntry :: "json option \<Rightarrow> int option \<Rightarrow> json" where
  "cacheEntry hash modTime =
     JObj ((case hash of None \<Rightarrow> [] | Some h \<Rightarrow> [(''hash'', h)])
           @ (case modTime of None \<Rightarrow> [] | Some m \<Rightarrow> [(''modTime'', JNum m)]))"

subsection \<open>updateHashCache and updateCacheWithNewFiles\<close>

text \<open>The index of a tree: from fingerprint to the file that stands for it.\<close>

type_synonym fingerprint_index = "(json option \<times> path) list"

definition theCache :: "error + hash_cache \<Rightarrow> hash_cache" where
  "theCache r = (case r of Inl e \<Rightarrow> [] | Inr cache \<Rightarrow> cache)"

text \<open>
  \<open>updateHashCache\<close>: the new entries are added, and every key that is not the path
  of a file of the index is deleted.
\<close>

definition updateHashCache ::
  "run_env \<Rightarrow> path \<Rightarrow> (path \<times> json) list \<Rightarrow> fingerprint_index \<Rightarrow> filesystem \<Rightarrow> filesystem" where
  "updateHashCache env hashCacheFile newEntries allHashes fs =
     (let existingCache = theCache (loadHashCache fs hashCacheFile);
          withNew = foldl (\<lambda>cache fe. js_map_set (fileKey (fst fe)) (Some (snd fe)) cache)
                      existingCache newEntries;
          currentFiles = map fileKey (map_values allHashes);
          kept = filter (\<lambda>kv. fst kv \<in> set currentFiles) withNew
      in writeJson env hashCacheFile (cacheData env kept) fs)"

text \<open>
  \<open>updateCacheWithNewFiles\<close>: every file of the index that has no entry yet gets
  one, with the time \<^verbatim>\<open>fs.stat\<close> gives; a file that cannot be read is passed over.
\<close>

definition updateCacheWithNewFiles ::
  "run_env \<Rightarrow> path \<Rightarrow> fingerprint_index \<Rightarrow> filesystem \<Rightarrow> filesystem" where
  "updateCacheWithNewFiles env hashCacheFile targetHashes fs =
     (let existingCache = theCache (loadHashCache fs hashCacheFile);
          withNew =
            foldl (\<lambda>cache ht.
                     if map_has (fileKey (snd ht)) cache then cache
                     else (case stat fs (snd ht) of
                             Inl e \<Rightarrow> cache
                           | Inr stats \<Rightarrow>
                               js_map_set (fileKey (snd ht))
                                 (Some (cacheEntry (fst ht) (Some (mtime stats)))) cache))
              existingCache targetHashes
      in writeJson env hashCacheFile (cacheData env withNew) fs)"

subsection \<open>The two hash databases\<close>

text \<open>\<open>scanAllFiles\<close> is \<open>scanFiles\<close> once more.\<close>

definition scanAllFiles :: "string list \<Rightarrow> filesystem \<Rightarrow> path list" where
  "scanAllFiles directory fs = scanFiles directory fs"

text \<open>\<open>buildHashDatabase\<close>: every file of the source, image or not, is given the
  fingerprint of \<open>createFileFingerprint\<close>; a file whose fingerprint throws gets none.\<close>

fun buildHashDatabase ::
  "run_env \<Rightarrow> filesystem \<Rightarrow> path list \<Rightarrow> (path \<times> string) list \<Rightarrow> (path \<times> string) list" where
  "buildHashDatabase env fs [] hashes = hashes"
| "buildHashDatabase env fs (file # files) hashes =
     (case createFileFingerprint (md5 env) fs file of
        Inl e \<Rightarrow> buildHashDatabase env fs files hashes
      | Inr hash \<Rightarrow> buildHashDatabase env fs files (map_set file hash hashes))"

text \<open>The batch processor: its target directory, and the snapshot file in it.\<close>

record processor =
  targetDirectory :: "string list"

definition hashCacheFile :: "processor \<Rightarrow> path" where
  "hashCacheFile this = Path (targetDirectory this) ''.photo-organizer-cache.json''"

text \<open>
  A property of a value that is not \<^verbatim>\<open>null\<close> or \<^verbatim>\<open>undefined\<close>, and
  \<^verbatim>\<open>entry.modTime === currentModTime\<close> for a time that is a number or \<^verbatim>\<open>undefined\<close>.
\<close>

definition propOf :: "json option \<Rightarrow> string \<Rightarrow> json option" where
  "propOf v k = (case v of None \<Rightarrow> None | Some j \<Rightarrow> (case getProp j k of Inl e \<Rightarrow> None | Inr r \<Rightarrow> r))"

definition sameModTime :: "json option \<Rightarrow> int option \<Rightarrow> bool" where
  "sameModTime a b = (a = map_option JNum b)"

text \<open>\<^verbatim>\<open>m.get(k)\<close> where the values themselves may be \<^verbatim>\<open>undefined\<close>.\<close>

definition cache_get :: "json option \<Rightarrow> hash_cache \<Rightarrow> json option" where
  "cache_get k cache = (case map_of cache k of None \<Rightarrow> None | Some v \<Rightarrow> v)"

text \<open>The loop that sorts the target files into those with a valid entry and the rest.\<close>

fun reconcile ::
  "hash_cache \<Rightarrow> (path \<times> int) list \<Rightarrow> path list \<Rightarrow> path list \<Rightarrow> fingerprint_index \<Rightarrow>
   path list \<times> fingerprint_index" where
  "reconcile cachedHashes fileModTimes [] filesToHash validCachedHashes =
     (filesToHash, validCachedHashes)"
| "reconcile cachedHashes fileModTimes (file # targetFiles) filesToHash validCachedHashes =
     (let currentModTime = map_get file fileModTimes;
          cachedEntry = cache_get (fileKey file) cachedHashes
      in if truthy cachedEntry \<and> sameModTime (propOf cachedEntry ''modTime'') currentModTime
         then reconcile cachedHashes fileModTimes targetFiles filesToHash
                (js_map_set (propOf cachedEntry ''hash'') file validCachedHashes)
         else reconcile cachedHashes fileModTimes targetFiles (filesToHash @ [file])
                validCachedHashes)"

text \<open>The loop that hashes the rest.\<close>

fun hashFiles ::
  "run_env \<Rightarrow> filesystem \<Rightarrow> (path \<times> int) list \<Rightarrow> path list \<Rightarrow> fingerprint_index \<Rightarrow>
   (path \<times> json) list \<Rightarrow> fingerprint_index \<times> (path \<times> json) list" where
  "hashFiles env fs fileModTimes [] validCachedHashes newCacheEntries =
     (validCachedHashes, newCacheEntries)"
| "hashFiles env fs fileModTimes (file # filesToHash) validCachedHashes newCacheEntries =
     (case createFileFingerprint (md5 env) fs file of
        Inl e \<Rightarrow> hashFiles env fs fileModTimes filesToHash validCachedHashes newCacheEntries
      | Inr hash \<Rightarrow>
          hashFiles env fs fileModTimes filesToHash
            (js_map_set (Some (JStr hash)) file validCachedHashes)
            (map_set file (cacheEntry (Some (JStr hash)) (map_get file fileModTimes)) newCacheEntries))"

text \<open>
  \<open>buildTargetHashDatabase\<close>, for a target directory that exists (the batch makes
  sure of it before anything else).  It returns the index and leaves the snapshot
  rewritten when it had to hash a file.
\<close>

definition buildTargetHashDatabase ::
  "run_env \<Rightarrow> processor \<Rightarrow> filesystem \<Rightarrow> filesystem \<times> fingerprint_index" where
  "buildTargetHashDatabase env this fs =
     (let cachedHashes = theCache (loadHashCache fs (hashCacheFile this));
          targetFiles = scanAllFiles (targetDirectory this) fs
      in if length targetFiles = 0 then (fs, [])
         else
           let fileModTimes =
                 foldl (\<lambda>m file. case stat fs file of Inl e \<Rightarrow> m | Inr stats \<Rightarrow> map_set file (mtime stats) m)
                   [] targetFiles
           in case reconcile cachedHashes fileModTimes targetFiles [] [] of
                (filesToHash, validCachedHashes) \<Rightarrow>
                  if length filesToHash = 0 then (fs, validCachedHashes)
                  else
                    (case hashFiles env fs fileModTimes filesToHash validCachedHashes [] of
                       (allHashes, newCacheEntries) \<Rightarrow>
                         (updateHashCache env (hashCacheFile this) newCacheEntries allHashes fs,
                          allHashes)))"

subsection \<open>copyOrganizedFiles\<close>

record copy_state =
  targetHashes :: fingerprint_index
  files :: filesystem
  copiedCount :: nat
  duplicatesSkipped :: nat
  filesRenamedForConflicts :: nat

text \<open>
  \<^verbatim>\<open>path.join(targetDirectory, path.relative(sourcePath, sourceFile))\<close> for a file
  below \<open>sourcePath\<close>, which every scanned file is.
\<close>

definition mirrorPath :: "string list \<Rightarrow> string list \<Rightarrow> path \<Rightarrow> path" where
  "mirrorPath sourcePath targetDir sourceFile =
     Path (targetDir @ drop (length sourcePath) (dirname sourceFile)) (basename sourceFile)"

text \<open>
  \<^verbatim>\<open>fs.copy\<close> to a path that is free: the new file has the content of the old one and
  the time of the copy.  It throws when the source is gone.
\<close>

definition fs_copy :: "run_env \<Rightarrow> path \<Rightarrow> path \<Rightarrow> filesystem \<Rightarrow> error + filesystem" where
  "fs_copy env src dest fs =
     (case stat fs src of
        Inl e \<Rightarrow> Inl e
      | Inr f \<Rightarrow> Inr (map_set dest (f\<lparr>mtime := now env\<rparr>) fs))"

text \<open>One round of the loop over the source files.\<close>

definition copyOne ::
  "run_env \<Rightarrow> processor \<Rightarrow> string list \<Rightarrow> (path \<times> string) list \<Rightarrow> copy_state \<Rightarrow> path \<Rightarrow>
   error + copy_state" where
  "copyOne env this sourcePath sourceHashes st sourceFile =
     (case map_get sourceFile sourceHashes of
        None \<Rightarrow> Inr st
      | Some sourceHash \<Rightarrow>
          if sourceHash = [] then Inr st
          else if map_has (Some (JStr sourceHash)) (targetHashes st)
          then Inr (st\<lparr>duplicatesSkipped := duplicatesSkipped st + 1\<rparr>)
          else
            let targetPath = mirrorPath sourcePath (targetDirectory this) sourceFile;
                finalTargetPath = findUniqueFilename (files st) targetPath
            in case fs_copy env sourceFile finalTargetPath (files st) of
                 Inl e \<Rightarrow> Inl e
               | Inr fs' \<Rightarrow>
                   Inr (st\<lparr>targetHashes := js_map_set (Some (JStr sourceHash)) finalTargetPath (targetHashes st),
                           files := fs',
                           copiedCount := copiedCount st + 1,
                           filesRenamedForConflicts :=
                             (if finalTargetPath \<noteq> targetPath then filesRenamedForConflicts st + 1
                              else filesRenamedForConflicts st)\<rparr>))"

fun copyLoop ::
  "run_env \<Rightarrow> processor \<Rightarrow> string list \<Rightarrow> (path \<times> string) list \<Rightarrow> copy_state \<Rightarrow> path list \<Rightarrow>
   error + copy_state" where
  "copyLoop env this sourcePath sourceHashes st [] = Inr st"
| "copyLoop env this sourcePath sourceHashes st (sourceFile # sourceFiles) =
     (case copyOne env this sourcePath sourceHashes st sourceFile of
        Inl e \<Rightarrow> Inl e
      | Inr st' \<Rightarrow> copyLoop env this sourcePath sourceHashes st' sourceFiles)"

definition copyOrganizedFiles ::
  "run_env \<Rightarrow> processor \<Rightarrow> string list \<Rightarrow> filesystem \<Rightarrow> error + copy_state" where
  "copyOrganizedFiles env this sourcePath fs =
     (let sourceFiles = scanAllFiles sourcePath fs;
          sourceHashes = buildHashDatabase env fs sourceFiles []
      in case buildTargetHashDatabase env this fs of
           (fs1, index) \<Rightarrow>
             (case copyLoop env this sourcePath sourceHashes
                     \<lparr>targetHashes = index, files = fs1, copiedCount = 0, duplicatesSkipped = 0,
                      filesRenamedForConflicts = 0\<rparr> sourceFiles of
                Inl e \<Rightarrow> Inl e
              | Inr st \<Rightarrow>
                  Inr (if copiedCount st > 0
                       then st\<lparr>files := updateCacheWithNewFiles env (hashCacheFile this) (targetHashes st) (files st)\<rparr>
                       else st)))"

section \<open>The merge loop and the target index\<close>

text \<open>
  One representative for each fingerprint: no primitive key, and so no string, is the
  key of two entries of the index.
\<close>

definition oneRepresentative :: "fingerprint_index \<Rightarrow> bool" where
  "oneRepresentative index = distinct (filter isPrimitive (map fst index))"

lemma map_fst_map_set:
  "map fst (map_set k v m) = (if k \<in> set (map fst m) then map fst m else map fst m @ [k])"
proof (induction m)
  case Nil
  show ?case by simp
next
  case (Cons kv m)
  obtain k' v' where kv: "kv = (k', v')" by (cases kv)
  show ?case
  proof (cases "k' = k")
    case True
    with kv show ?thesis by simp
  next
    case False
    with kv Cons show ?thesis by simp
  qed
qed

lemma oneRepresentative_js_map_set:
  assumes "oneRepresentative m"
  shows "oneRepresentative (js_map_set k v m)"
proof (cases "isPrimitive k")
  case True
  show ?thesis
  proof (cases "k \<in> set (map fst m)")
    case True
    with \<open>isPrimitive k\<close> assms show ?thesis
      by (simp add: oneRepresentative_def js_map_set_def map_fst_map_set)
  next
    case False
    with \<open>isPrimitive k\<close> assms show ?thesis
      by (simp add: oneRepresentative_def js_map_set_def map_fst_map_set)
  qed
next
  case False
  with assms show ?thesis by (simp add: oneRepresentative_def js_map_set_def)
qed

lemma map_has_js_map_set:
  "map_has k' (js_map_set k v m) \<longleftrightarrow> k' = k \<or> map_has k' m"
proof (cases "isPrimitive k")
  case True
  then show ?thesis by (simp add: map_has_alt js_map_set_def map_of_map_set)
next
  case False
  then show ?thesis
    by (auto simp: map_has_alt js_map_set_def map_add_def split: option.splits)
qed

lemma map_get_js_map_set_string:
  "map_get (Some (JStr h)) (js_map_set (Some (JStr h)) v m) = Some v"
  by (simp add: map_get_def js_map_set_def map_of_map_set)

lemma pathExists_map_set: "pathExists (map_set p f fs) p"
  by (simp add: pathExists_def map_of_map_set)

lemma copyOne_skip:
  assumes "map_get sourceFile sourceHashes = Some h" and "h \<noteq> []"
    and "map_has (Some (JStr h)) (targetHashes st)"
  shows "copyOne env this sourcePath sourceHashes st sourceFile
           = Inr (st\<lparr>duplicatesSkipped := duplicatesSkipped st + 1\<rparr>)"
  using assms by (simp add: copyOne_def)

lemma copyOne_copy:
  assumes "map_get sourceFile sourceHashes = Some h" and "h \<noteq> []"
    and "\<not> map_has (Some (JStr h)) (targetHashes st)"
    and "copyOne env this sourcePath sourceHashes st sourceFile = Inr st'"
  shows "map_get (Some (JStr h)) (targetHashes st')
           = Some (findUniqueFilename (files st) (mirrorPath sourcePath (targetDirectory this) sourceFile))
       \<and> pathExists (files st') (findUniqueFilename (files st) (mirrorPath sourcePath (targetDirectory this) sourceFile))
       \<and> \<not> pathExists (files st) (findUniqueFilename (files st) (mirrorPath sourcePath (targetDirectory this) sourceFile))
       \<and> copiedCount st' = copiedCount st + 1"
proof -
  let ?final = "findUniqueFilename (files st) (mirrorPath sourcePath (targetDirectory this) sourceFile)"
  from assms obtain fs' where c: "fs_copy env sourceFile ?final (files st) = Inr fs'"
    and st': "st' = st\<lparr>targetHashes := js_map_set (Some (JStr h)) ?final (targetHashes st),
                        files := fs', copiedCount := copiedCount st + 1,
                        filesRenamedForConflicts :=
                          (if ?final \<noteq> mirrorPath sourcePath (targetDirectory this) sourceFile
                           then filesRenamedForConflicts st + 1 else filesRenamedForConflicts st)\<rparr>"
    by (auto simp: copyOne_def Let_def split: sum.splits)
  from c obtain f where "fs' = map_set ?final f (files st)"
    by (auto simp: fs_copy_def split: sum.splits)
  then have "pathExists fs' ?final" by (simp add: pathExists_map_set)
  with st' show ?thesis
    by (simp add: map_get_js_map_set_string findUniqueFilename_free)
qed

lemma copyOne_index:
  assumes "copyOne env this sourcePath sourceHashes st sourceFile = Inr st'"
  shows "(map_has k (targetHashes st) \<longrightarrow> map_has k (targetHashes st'))
       \<and> (oneRepresentative (targetHashes st) \<longrightarrow> oneRepresentative (targetHashes st'))"
proof (cases "map_get sourceFile sourceHashes")
  case None
  with assms show ?thesis by (simp add: copyOne_def)
next
  case (Some h)
  show ?thesis
  proof (cases "h = [] \<or> map_has (Some (JStr h)) (targetHashes st)")
    case True
    with Some assms show ?thesis by (auto simp: copyOne_def split: if_splits)
  next
    case False
    with Some assms obtain final where
      "targetHashes st' = js_map_set (Some (JStr h)) final (targetHashes st)"
      by (auto simp: copyOne_def Let_def split: sum.splits)
    then show ?thesis
      by (simp add: map_has_js_map_set oneRepresentative_js_map_set)
  qed
qed

lemma copyLoop_index:
  assumes "copyLoop env this sourcePath sourceHashes st sourceFiles = Inr st'"
  shows "(map_has k (targetHashes st) \<longrightarrow> map_has k (targetHashes st'))
       \<and> (oneRepresentative (targetHashes st) \<longrightarrow> oneRepresentative (targetHashes st'))"
  using assms
proof (induction sourceFiles arbitrary: st)
  case Nil
  then show ?case by simp
next
  case (Cons f fs)
  from Cons.prems obtain st1 where 1: "copyOne env this sourcePath sourceHashes st f = Inr st1"
    and 2: "copyLoop env this sourcePath sourceHashes st1 fs = Inr st'"
    by (auto split: sum.splits)
  from copyOne_index [OF 1, of k] Cons.IH [OF 2] show ?case by blast
qed

text \<open>The index that \<open>buildTargetHashDatabase\<close> returns has one representative too.\<close>

lemma reconcile_oneRepresentative:
  assumes "reconcile cachedHashes fileModTimes targetFiles filesToHash valid = (filesToHash', valid')"
    and "oneRepresentative valid"
  shows "oneRepresentative valid'"
  using assms
proof (induction targetFiles arbitrary: filesToHash valid)
  case Nil
  then show ?case by simp
next
  case (Cons f fs)
  then show ?case
    by (auto simp: Let_def oneRepresentative_js_map_set split: if_splits)
qed

lemma hashFiles_oneRepresentative:
  assumes "hashFiles env fs fileModTimes filesToHash valid new = (valid', new')"
    and "oneRepresentative valid"
  shows "oneRepresentative valid'"
  using assms
proof (induction filesToHash arbitrary: valid new)
  case Nil
  then show ?case by simp
next
  case (Cons f fs)
  then show ?case
    by (auto simp: oneRepresentative_js_map_set split: sum.splits)
qed

lemma buildTargetHashDatabase_oneRepresentative:
  "oneRepresentative (snd (buildTargetHashDatabase env this fs))"
proof -
  have e: "oneRepresentative []" by (simp add: oneRepresentative_def)
  show ?thesis
    unfolding buildTargetHashDatabase_def Let_def
    by (auto simp: e split: prod.splits
          dest: reconcile_oneRepresentative [OF _ e] hashFiles_oneRepresentative
                reconcile_oneRepresentative)
qed


text \<open>
  C1.  In the loop over the source files, a file whose fingerprint is in the target
  index is skipped: nothing is copied and the index stays as it is.  That holds
  for a fingerprint the index had when the loop began and for one that an earlier
  round added, since no round removes a key.  A round that copies a file records its
  fingerprint in the index at once, with the path of the copy.  The index that
  \<open>buildTargetHashDatabase\<close> returns has one representative for each fingerprint, and
  so has the index after every round.
\<close>

theorem merge_skips_what_the_index_holds:
  "(map_get sourceFile sourceHashes = Some h \<and> h \<noteq> [] \<and> map_has (Some (JStr h)) (targetHashes st) \<longrightarrow>
      copyOne env this sourcePath sourceHashes st sourceFile
        = Inr (st\<lparr>duplicatesSkipped := duplicatesSkipped st + 1\<rparr>))
   \<and> (map_get sourceFile sourceHashes = Some h \<and> h \<noteq> [] \<and> \<not> map_has (Some (JStr h)) (targetHashes st)
        \<and> copyOne env this sourcePath sourceHashes st sourceFile = Inr st' \<longrightarrow>
      map_get (Some (JStr h)) (targetHashes st')
        = Some (findUniqueFilename (files st) (mirrorPath sourcePath (targetDirectory this) sourceFile))
      \<and> pathExists (files st') (findUniqueFilename (files st) (mirrorPath sourcePath (targetDirectory this) sourceFile))
      \<and> copiedCount st' = copiedCount st + 1)
   \<and> (copyLoop env this sourcePath sourceHashes st0 (take n sourceFiles) = Inr st1 \<longrightarrow>
        (map_has k (targetHashes st0) \<longrightarrow> map_has k (targetHashes st1))
        \<and> (oneRepresentative (targetHashes st0) \<longrightarrow> oneRepresentative (targetHashes st1))
        \<and> (map_has (Some (JStr h')) (targetHashes st0) \<and> map_get later sourceHashes = Some h' \<and> h' \<noteq> [] \<longrightarrow>
             copyOne env this sourcePath sourceHashes st1 later
               = Inr (st1\<lparr>duplicatesSkipped := duplicatesSkipped st1 + 1\<rparr>)))
   \<and> oneRepresentative (snd (buildTargetHashDatabase env this fs))"
proof (intro conjI impI)
  assume "map_get sourceFile sourceHashes = Some h \<and> h \<noteq> [] \<and> map_has (Some (JStr h)) (targetHashes st)"
  then show "copyOne env this sourcePath sourceHashes st sourceFile
        = Inr (st\<lparr>duplicatesSkipped := duplicatesSkipped st + 1\<rparr>)"
    by (simp add: copyOne_skip)
next
  assume a: "map_get sourceFile sourceHashes = Some h \<and> h \<noteq> [] \<and> \<not> map_has (Some (JStr h)) (targetHashes st)
        \<and> copyOne env this sourcePath sourceHashes st sourceFile = Inr st'"
  then have c: "map_get (Some (JStr h)) (targetHashes st')
           = Some (findUniqueFilename (files st) (mirrorPath sourcePath (targetDirectory this) sourceFile))
       \<and> pathExists (files st') (findUniqueFilename (files st) (mirrorPath sourcePath (targetDirectory this) sourceFile))
       \<and> \<not> pathExists (files st) (findUniqueFilename (files st) (mirrorPath sourcePath (targetDirectory this) sourceFile))
       \<and> copiedCount st' = copiedCount st + 1"
    using copyOne_copy [of sourceFile sourceHashes h st env this sourcePath st'] by blast
  from c show "map_get (Some (JStr h)) (targetHashes st')
        = Some (findUniqueFilename (files st) (mirrorPath sourcePath (targetDirectory this) sourceFile))" by blast
  from c show "pathExists (files st') (findUniqueFilename (files st) (mirrorPath sourcePath (targetDirectory this) sourceFile))"
    by blast
  from c show "copiedCount st' = copiedCount st + 1" by blast
next
  assume l: "copyLoop env this sourcePath sourceHashes st0 (take n sourceFiles) = Inr st1"
  {
    assume "map_has k (targetHashes st0)"
    with copyLoop_index [OF l, of k] show "map_has k (targetHashes st1)" by blast
  }
  {
    assume "oneRepresentative (targetHashes st0)"
    with copyLoop_index [OF l, of k] show "oneRepresentative (targetHashes st1)" by blast
  }
  {
    assume b: "map_has (Some (JStr h')) (targetHashes st0) \<and> map_get later sourceHashes = Some h' \<and> h' \<noteq> []"
    with copyLoop_index [OF l, of "Some (JStr h')"] have "map_has (Some (JStr h')) (targetHashes st1)" by blast
    with b show "copyOne env this sourcePath sourceHashes st1 later
               = Inr (st1\<lparr>duplicatesSkipped := duplicatesSkipped st1 + 1\<rparr>)"
      by (simp add: copyOne_skip)
  }
next
  show "oneRepresentative (snd (buildTargetHashDatabase env this fs))"
    by (rule buildTargetHashDatabase_oneRepresentative)
qed

definition env_w :: run_env where
  "env_w = \<lparr>md5 = (\<lambda>e. ''d41d8cd9''), now = 2000, nowISO = ''2024-01-02T00:00:00.000Z''\<rparr>"

definition proc_w :: processor where
  "proc_w = \<lparr>targetDirectory = [''target'']\<rparr>"

definition plain :: "nat \<Rightarrow> int \<Rightarrow> fileinfo" where
  "plain n t = \<lparr>fsize = n, mtime = t, exifr_parse = ParseThrows, readJson = ParseFails\<rparr>"

definition twins :: filesystem where
  "twins = [(Path [''batch''] ''a.jpg'', plain 100 500), (Path [''batch''] ''b.jpg'', plain 100 600)]"

definition twin_hashes :: "(path \<times> string) list" where
  "twin_hashes = [(Path [''batch''] ''a.jpg'', ''100-no-exif''), (Path [''batch''] ''b.jpg'', ''100-no-exif'')]"

definition before_a :: copy_state where
  "before_a = \<lparr>targetHashes = [], files = twins, copiedCount = 0, duplicatesSkipped = 0,
     filesRenamedForConflicts = 0\<rparr>"

definition after_a :: copy_state where
  "after_a = \<lparr>targetHashes = [(Some (JStr ''100-no-exif''), Path [''target''] ''a.jpg'')],
     files = twins @ [(Path [''target''] ''a.jpg'', plain 100 2000)],
     copiedCount = 1, duplicatesSkipped = 0, filesRenamedForConflicts = 0\<rparr>"

theorem merge_skips_what_the_index_holds_witness:
  "buildHashDatabase env_w twins [Path [''batch''] ''a.jpg'', Path [''batch''] ''b.jpg''] [] = twin_hashes
   \<and> map_get (Path [''batch''] ''a.jpg'') twin_hashes = Some ''100-no-exif''
   \<and> \<not> map_has (Some (JStr ''100-no-exif'')) (targetHashes before_a)
   \<and> copyOne env_w proc_w [''batch''] twin_hashes before_a (Path [''batch''] ''a.jpg'') = Inr after_a
   \<and> map_get (Some (JStr ''100-no-exif'')) (targetHashes after_a)
       = Some (findUniqueFilename (files before_a) (mirrorPath [''batch''] (targetDirectory proc_w) (Path [''batch''] ''a.jpg'')))
   \<and> copiedCount after_a = copiedCount before_a + 1
   \<and> map_get (Path [''batch''] ''b.jpg'') twin_hashes = Some ''100-no-exif''
   \<and> map_has (Some (JStr ''100-no-exif'')) (targetHashes after_a)
   \<and> copyOne env_w proc_w [''batch''] twin_hashes after_a (Path [''batch''] ''b.jpg'')
       = Inr (after_a\<lparr>duplicatesSkipped := duplicatesSkipped after_a + 1\<rparr>)
   \<and> copyLoop env_w proc_w [''batch''] twin_hashes before_a
         (take 1 [Path [''batch''] ''a.jpg'', Path [''batch''] ''b.jpg'']) = Inr after_a
   \<and> oneRepresentative (targetHashes before_a)
   \<and> oneRepresentative (targetHashes after_a)"
proof -
  let ?a = "Path [''batch''] ''a.jpg''" and ?b = "Path [''batch''] ''b.jpg''"
  have 0: "buildHashDatabase env_w twins [?a, ?b] [] = twin_hashes" by code_simp
  have 1: "map_get ?a twin_hashes = Some ''100-no-exif''" by code_simp
  have ne: "''100-no-exif'' \<noteq> []" by simp
  have 2: "\<not> map_has (Some (JStr ''100-no-exif'')) (targetHashes before_a)" by code_simp
  have 3: "copyOne env_w proc_w [''batch''] twin_hashes before_a ?a = Inr after_a" by code_simp
  note A = merge_skips_what_the_index_holds [where sourceFile = ?a and sourceHashes = twin_hashes
      and h = "''100-no-exif''" and st = before_a and env = env_w and this = proc_w
      and sourcePath = "[''batch'']" and st' = after_a and ?st0.0 = before_a and n = 1
      and sourceFiles = "[?a, ?b]" and ?st1.0 = after_a and k = None and h' = "''100-no-exif''"
      and later = ?b and fs = twins]
  note A2 = A [THEN conjunct2, THEN conjunct1, rule_format, OF conjI [OF 1 conjI [OF ne conjI [OF 2 3]]]]
  note 4 = A2 [THEN conjunct1]
  note 5 = A2 [THEN conjunct2, THEN conjunct2]
  have 6: "map_get ?b twin_hashes = Some ''100-no-exif''" by code_simp
  have 7: "map_has (Some (JStr ''100-no-exif'')) (targetHashes after_a)" by code_simp
  note B = merge_skips_what_the_index_holds [where sourceFile = ?b and sourceHashes = twin_hashes
      and h = "''100-no-exif''" and st = after_a and env = env_w and this = proc_w
      and sourcePath = "[''batch'']" and st' = after_a and ?st0.0 = before_a and n = 1
      and sourceFiles = "[?a, ?b]" and ?st1.0 = after_a and k = None and h' = "''100-no-exif''"
      and later = ?b and fs = twins]
  note 8 = B [THEN conjunct1, rule_format, OF conjI [OF 6 conjI [OF ne 7]]]
  have 9: "copyLoop env_w proc_w [''batch''] twin_hashes before_a (take 1 [?a, ?b]) = Inr after_a"
    using 3 by simp
  have 10: "oneRepresentative (targetHashes before_a)" by code_simp
  note C = A [THEN conjunct2, THEN conjunct2, THEN conjunct1, rule_format, OF 9]
  note 11 = C [THEN conjunct2, THEN conjunct1, rule_format, OF 10]
  from 0 1 2 3 4 5 6 7 8 9 10 11 show ?thesis by (intro conjI)
qed

section \<open>Videos: the standalone pass and the merge\<close>

lemma undated_video_in_no_group:
  assumes "\<forall>fp. createVideoFingerprint fs p \<noteq> Inr (Some fp)"
    and "g \<in> set (findDuplicatesByDateAndSize fs videoFiles)"
  shows "p \<notin> set g"
proof
  assume "p \<in> set g"
  moreover from assms(2) have "g \<in> set (map snd (groupInto (dateKey fs) videoFiles []))"
    by (simp add: findDuplicatesByDateAndSize_def map_values_def dateFingerprints_groupInto)
  ultimately have "dateKey fs p \<noteq> None"
    using groupInto_only_keyed [of g "dateKey fs" videoFiles "[]" p] by simp
  with assms(1) show False
    by (auto simp: dateKey_def split: sum.splits option.splits if_splits)
qed

lemma map_of_buildHashDatabase:
  "map_of (buildHashDatabase env fs paths hashes) p =
     (if p \<in> set paths \<and> (\<exists>fp. createFileFingerprint (md5 env) fs p = Inr fp)
      then (case createFileFingerprint (md5 env) fs p of Inl e \<Rightarrow> None | Inr fp \<Rightarrow> Some fp)
      else map_of hashes p)"
proof (induction paths arbitrary: hashes)
  case Nil
  show ?case by simp
next
  case (Cons f paths)
  show ?case
  proof (cases "createFileFingerprint (md5 env) fs f")
    case (Inl e)
    with Cons show ?thesis by auto
  next
    case (Inr fp)
    with Cons show ?thesis by (auto simp: map_of_map_set)
  qed
qed

lemma createFileFingerprint_nonempty:
  assumes "createFileFingerprint md fs p = Inr h"
  shows "h \<noteq> []"
  using createFileFingerprint_shape [OF assms] by auto

lemma buildHashDatabase_get:
  assumes "p \<in> set sourceFiles"
  shows "map_get p (buildHashDatabase env fs sourceFiles []) =
           (case createFileFingerprint (md5 env) fs p of Inl e \<Rightarrow> None | Inr hash \<Rightarrow> Some hash)"
  using assms by (cases "createFileFingerprint (md5 env) fs p") (simp_all add: map_get_def map_of_buildHashDatabase)

lemma merge_skips_or_copies:
  assumes "p \<in> set sourceFiles" and "createFileFingerprint (md5 env) fs p = Inr hash"
  shows "(map_has (Some (JStr hash)) (targetHashes st) \<longrightarrow>
           copyOne env this sourcePath (buildHashDatabase env fs sourceFiles []) st p
             = Inr (st\<lparr>duplicatesSkipped := duplicatesSkipped st + 1\<rparr>))
       \<and> (\<not> map_has (Some (JStr hash)) (targetHashes st)
            \<and> copyOne env this sourcePath (buildHashDatabase env fs sourceFiles []) st p = Inr st' \<longrightarrow>
           copiedCount st' = copiedCount st + 1 \<and> map_has (Some (JStr hash)) (targetHashes st'))"
proof -
  have g: "map_get p (buildHashDatabase env fs sourceFiles []) = Some hash"
    using buildHashDatabase_get [OF assms(1), of env fs] assms(2) by simp
  have ne: "hash \<noteq> []" using assms(2) by (rule createFileFingerprint_nonempty)
  have 1: "map_has (Some (JStr hash)) (targetHashes st) \<longrightarrow>
           copyOne env this sourcePath (buildHashDatabase env fs sourceFiles []) st p
             = Inr (st\<lparr>duplicatesSkipped := duplicatesSkipped st + 1\<rparr>)"
    using copyOne_skip [OF g ne] by blast
  have 2: "\<not> map_has (Some (JStr hash)) (targetHashes st)
            \<and> copyOne env this sourcePath (buildHashDatabase env fs sourceFiles []) st p = Inr st' \<longrightarrow>
           copiedCount st' = copiedCount st + 1 \<and> map_has (Some (JStr hash)) (targetHashes st')"
  proof
    assume a: "\<not> map_has (Some (JStr hash)) (targetHashes st)
            \<and> copyOne env this sourcePath (buildHashDatabase env fs sourceFiles []) st p = Inr st'"
    then have n: "\<not> map_has (Some (JStr hash)) (targetHashes st)"
      and c: "copyOne env this sourcePath (buildHashDatabase env fs sourceFiles []) st p = Inr st'"
      by blast+
    from copyOne_copy [OF g ne n c]
    have "copiedCount st' = copiedCount st + 1" and "map_get (Some (JStr hash)) (targetHashes st') \<noteq> None"
      by simp_all
    then show "copiedCount st' = copiedCount st + 1 \<and> map_has (Some (JStr hash)) (targetHashes st')"
      by (simp add: map_has_alt map_get_def)
  qed
  from 1 2 show ?thesis by blast
qed

text \<open>The entry of the cache is valid for a file: what the loop over the target files tests.\<close>

definition validEntry :: "hash_cache \<Rightarrow> (path \<times> int) list \<Rightarrow> path \<Rightarrow> bool" where
  "validEntry cachedHashes fileModTimes file =
     (truthy (cache_get (fileKey file) cachedHashes)
      \<and> sameModTime (propOf (cache_get (fileKey file) cachedHashes) ''modTime'') (map_get file fileModTimes))"

lemma reconcile_step:
  "reconcile cachedHashes fileModTimes (file # targetFiles) filesToHash valid =
     (if validEntry cachedHashes fileModTimes file
      then reconcile cachedHashes fileModTimes targetFiles filesToHash
             (js_map_set (propOf (cache_get (fileKey file) cachedHashes) ''hash'') file valid)
      else reconcile cachedHashes fileModTimes targetFiles (filesToHash @ [file]) valid)"
  by (simp add: validEntry_def Let_def)

lemma reconcile_has:
  "map_has k valid \<Longrightarrow>
     map_has k (snd (reconcile cachedHashes fileModTimes targetFiles filesToHash valid))"
proof (induction targetFiles arbitrary: filesToHash valid)
  case Nil
  then show ?case by simp
next
  case (Cons f targetFiles)
  show ?case
    unfolding reconcile_step
    by (cases "validEntry cachedHashes fileModTimes f") (simp_all add: Cons map_has_js_map_set)
qed

lemma reconcile_valid:
  "t \<in> set targetFiles \<Longrightarrow> validEntry cachedHashes fileModTimes t \<Longrightarrow>
     map_has (propOf (cache_get (fileKey t) cachedHashes) ''hash'')
       (snd (reconcile cachedHashes fileModTimes targetFiles filesToHash valid))"
proof (induction targetFiles arbitrary: filesToHash valid)
  case Nil
  then show ?case by simp
next
  case (Cons f targetFiles)
  show ?case
  proof (cases "f = t")
    case True
    have "map_has (propOf (cache_get (fileKey t) cachedHashes) ''hash'')
            (js_map_set (propOf (cache_get (fileKey t) cachedHashes) ''hash'') t valid)"
      by (simp add: map_has_js_map_set)
    from reconcile_has [OF this] True Cons.prems(2) show ?thesis
      unfolding reconcile_step by simp
  next
    case False
    with Cons.prems have "t \<in> set targetFiles" by simp
    from Cons.IH [OF this Cons.prems(2)] show ?thesis
      unfolding reconcile_step by simp
  qed
qed

lemma reconcile_filesToHash:
  "fst (reconcile cachedHashes fileModTimes targetFiles filesToHash valid)
     = filesToHash @ filter (\<lambda>t. \<not> validEntry cachedHashes fileModTimes t) targetFiles"
proof (induction targetFiles arbitrary: filesToHash valid)
  case Nil
  show ?case by simp
next
  case (Cons f targetFiles)
  show ?case unfolding reconcile_step by (simp add: Cons)
qed

lemma hashFiles_has:
  "map_has k valid \<Longrightarrow> map_has k (fst (hashFiles env fs fileModTimes filesToHash valid new))"
proof (induction filesToHash arbitrary: valid new)
  case Nil
  then show ?case by simp
next
  case (Cons f filesToHash)
  show ?case
    by (cases "createFileFingerprint (md5 env) fs f") (simp_all add: Cons map_has_js_map_set)
qed

lemma hashFiles_hashed:
  "t \<in> set filesToHash \<Longrightarrow> createFileFingerprint (md5 env) fs t = Inr h \<Longrightarrow>
     map_has (Some (JStr h)) (fst (hashFiles env fs fileModTimes filesToHash valid new))"
proof (induction filesToHash arbitrary: valid new)
  case Nil
  then show ?case by simp
next
  case (Cons f filesToHash)
  show ?case
  proof (cases "f = t")
    case True
    have "map_has (Some (JStr h)) (js_map_set (Some (JStr h)) t valid)"
      by (simp add: map_has_js_map_set)
    from hashFiles_has [OF this] True Cons.prems(2) show ?thesis by simp
  next
    case False
    with Cons.prems have "t \<in> set filesToHash" by simp
    from Cons.IH [OF this Cons.prems(2)] show ?thesis
      by (cases "createFileFingerprint (md5 env) fs f") simp_all
  qed
qed

lemma fileModTimes_get:
  assumes "stat fs t = Inr f"
  shows "map_of (foldl (\<lambda>m file. case stat fs file of Inl e \<Rightarrow> m | Inr stats \<Rightarrow> map_set file (mtime stats) m)
                    m0 targetFiles) t
         = (if t \<in> set targetFiles then Some (mtime f) else map_of m0 t)"
proof (induction targetFiles arbitrary: m0)
  case Nil
  show ?case by simp
next
  case (Cons x xs)
  show ?case
  proof (cases "stat fs x")
    case (Inl e)
    with assms have "x \<noteq> t" by auto
    with Inl show ?thesis by (simp add: Cons)
  next
    case (Inr g)
    with assms show ?thesis by (auto simp: Cons map_of_map_set)
  qed
qed

text \<open>
  The index of the target: a file with a valid entry in the cache stands under the
  hash of that entry, whatever it is; any other file under its fingerprint.
\<close>

lemma buildTargetHashDatabase_index:
  assumes t: "t \<in> set (scanAllFiles (targetDirectory this) fs)" and f: "stat fs t = Inr f"
  shows "(if truthy (cache_get (fileKey t) (theCache (loadHashCache fs (hashCacheFile this))))
             \<and> propOf (cache_get (fileKey t) (theCache (loadHashCache fs (hashCacheFile this)))) ''modTime''
                 = Some (JNum (mtime f))
          then map_has (propOf (cache_get (fileKey t) (theCache (loadHashCache fs (hashCacheFile this)))) ''hash'')
                 (snd (buildTargetHashDatabase env this fs))
          else (\<forall>h. createFileFingerprint (md5 env) fs t = Inr h \<longrightarrow>
                  map_has (Some (JStr h)) (snd (buildTargetHashDatabase env this fs))))"
proof -
  let ?cache = "theCache (loadHashCache fs (hashCacheFile this))"
  let ?tf = "scanAllFiles (targetDirectory this) fs"
  let ?mt = "foldl (\<lambda>m file. case stat fs file of Inl e \<Rightarrow> m | Inr stats \<Rightarrow> map_set file (mtime stats) m)
               [] ?tf"
  let ?r = "reconcile ?cache ?mt ?tf [] []"
  let ?h = "hashFiles env fs ?mt (fst ?r) (snd ?r) []"
  have ne: "length ?tf \<noteq> 0" using t by auto
  have idx: "snd (buildTargetHashDatabase env this fs)
             = (if length (fst ?r) = 0 then snd ?r else fst ?h)"
    using ne by (simp add: buildTargetHashDatabase_def Let_def split: prod.splits)
  have mt: "map_get t ?mt = Some (mtime f)"
    using fileModTimes_get [OF f, of "[]" ?tf] t by (simp add: map_get_def)
  have v: "validEntry ?cache ?mt t
           \<longleftrightarrow> truthy (cache_get (fileKey t) ?cache)
               \<and> propOf (cache_get (fileKey t) ?cache) ''modTime'' = Some (JNum (mtime f))"
    by (simp add: validEntry_def mt sameModTime_def)
  show ?thesis
  proof (cases "validEntry ?cache ?mt t")
    case True
    have 1: "map_has (propOf (cache_get (fileKey t) ?cache) ''hash'') (snd ?r)"
      using t True by (rule reconcile_valid)
    have 2: "map_has (propOf (cache_get (fileKey t) ?cache) ''hash'') (snd (buildTargetHashDatabase env this fs))"
      unfolding idx using 1 hashFiles_has [OF 1] by simp
    from True v have c: "truthy (cache_get (fileKey t) ?cache)
               \<and> propOf (cache_get (fileKey t) ?cache) ''modTime'' = Some (JNum (mtime f))" by blast
    show ?thesis unfolding if_P [OF c] by (rule 2)
  next
    case False
    then have in': "t \<in> set (fst ?r)" using t by (simp add: reconcile_filesToHash)
    then have nz: "length (fst ?r) \<noteq> 0" by auto
    have 2: "map_has (Some (JStr h)) (snd (buildTargetHashDatabase env this fs))"
      if "createFileFingerprint (md5 env) fs t = Inr h" for h
      unfolding idx using nz hashFiles_hashed [OF in' that] by simp
    from False v have c: "\<not> (truthy (cache_get (fileKey t) ?cache)
               \<and> propOf (cache_get (fileKey t) ?cache) ''modTime'' = Some (JNum (mtime f)))" by blast
    show ?thesis unfolding if_not_P [OF c] using 2 by blast
  qed
qed

text \<open>The standalone pass decides nothing about a file that is in no duplicate group.\<close>

lemma removeDuplicateFiles_untouched:
  assumes r: "removeDuplicateFiles dry fs groups = Inr (fs', decisions)"
    and p: "\<forall>g \<in> set groups. p \<notin> set g"
  shows "(\<forall>d \<in> set decisions. p \<noteq> fst d \<and> p \<notin> set (snd d)) \<and> pathExists fs' p = pathExists fs p"
proof -
  from removeDuplicateFiles_result [OF r]
  have a: "list_all2 (keepsOldest fs) groups decisions"
    and b: "fs' = (if dry then fs else filter (\<lambda>e. fst e \<notin> set (concat (map snd decisions))) fs)"
    by blast+
  have 1: "p \<noteq> fst d \<and> p \<notin> set (snd d)" if "d \<in> set decisions" for d
  proof -
    from a that obtain g where "g \<in> set groups" "keepsOldest fs g d"
      by (metis in_set_conv_nth list_all2_conv_all_nth)
    then have "g \<in> set groups" and "set (fst d # snd d) = set g" by (simp_all add: keepsOldest_def)
    with p show ?thesis by auto
  qed
  then have np: "p \<notin> set (concat (map snd decisions))" by auto
  have "pathExists fs' p = pathExists fs p"
  proof (cases dry)
    case True
    with b show ?thesis by simp
  next
    case False
    with b have "fs' = filter (\<lambda>e. fst e \<notin> set (concat (map snd decisions))) fs" by simp
    then show ?thesis unfolding pathExists_filter_notin using np
      by (simp only: pathExists_filter_notin) simp
  qed
  with 1 show ?thesis by blast
qed

lemma undated_video_untouched:
  assumes v: "videosOnly this"
    and r: "removeDuplicates this md emptyDirs fs = Inr (fs', decisions)"
    and n: "\<forall>fp. createVideoFingerprint fs p \<noteq> Inr (Some fp)"
  shows "(\<forall>d \<in> set decisions. p \<noteq> fst d \<and> p \<notin> set (snd d)) \<and> pathExists fs' p = pathExists fs p"
proof -
  let ?files = "filter (\<lambda>file. toLowerCase (extname file) \<in> set videoExtensions)
                  (scanFiles (baseDirectory this) fs)"
  from r v have "removeDuplicateFiles (dryRun this) fs (findDuplicatesByDateAndSize fs ?files)
                 = Inr (fs', decisions)"
    by (simp add: removeDuplicates_def Let_def split: if_splits)
  moreover have "\<forall>g \<in> set (findDuplicatesByDateAndSize fs ?files). p \<notin> set g"
    using undated_video_in_no_group [OF n] by blast
  ultimately show ?thesis by (rule removeDuplicateFiles_untouched)
qed

text \<open>
  C4, as amended.  \<open>createVideoFingerprint\<close> gives a fingerprint exactly to a file
  whose name (without extension) has the form \<^verbatim>\<open>YYYY-MM-DD_N\<close> with a valid date,
  and it is the size, \<^verbatim>\<open>-video-\<close> and that date; a video without one is in no
  duplicate group of the standalone pass, which neither keeps nor removes it.  The
  merge never calls \<open>createVideoFingerprint\<close>.  \<open>buildHashDatabase\<close> gives every source
  file, whatever its name, the fingerprint of \<open>createFileFingerprint\<close>, and the loop
  skips the file when the target index holds that fingerprint and copies it
  otherwise.  \<open>buildTargetHashDatabase\<close> puts a target file under the hash of its entry
  in the cache when that entry has the modification time of the file, and under the
  fingerprint of \<open>createFileFingerprint\<close> otherwise.
\<close>

theorem video_fingerprint_in_standalone_pass_only:
  "(createVideoFingerprint fs p = Inr (Some fp) \<longleftrightarrow>
      (\<exists>f. stat fs p = Inr f \<and> videoDatePattern (basename_noext p) \<and> nameHasValidDate (basename_noext p)
           \<and> fp = numberToString (fsize f) @ ''-video-'' @ take 10 (basename_noext p)))
   \<and> ((\<forall>fp'. createVideoFingerprint fs p \<noteq> Inr (Some fp')) \<and> g \<in> set (findDuplicatesByDateAndSize fs videoFiles)
        \<longrightarrow> p \<notin> set g)
   \<and> (videosOnly org \<and> removeDuplicates org md emptyDirs fs = Inr (fs', decisions)
        \<and> (\<forall>fp'. createVideoFingerprint fs p \<noteq> Inr (Some fp')) \<longrightarrow>
        (\<forall>d \<in> set decisions. p \<noteq> fst d \<and> p \<notin> set (snd d)) \<and> pathExists fs' p = pathExists fs p)
   \<and> (p \<in> set sourceFiles \<longrightarrow>
        map_get p (buildHashDatabase env fs sourceFiles []) =
          (case createFileFingerprint (md5 env) fs p of Inl e \<Rightarrow> None | Inr hash \<Rightarrow> Some hash))
   \<and> (p \<in> set sourceFiles \<and> createFileFingerprint (md5 env) fs p = Inr hash
        \<and> map_has (Some (JStr hash)) (targetHashes st) \<longrightarrow>
        copyOne env this sourcePath (buildHashDatabase env fs sourceFiles []) st p
          = Inr (st\<lparr>duplicatesSkipped := duplicatesSkipped st + 1\<rparr>))
   \<and> (p \<in> set sourceFiles \<and> createFileFingerprint (md5 env) fs p = Inr hash
        \<and> \<not> map_has (Some (JStr hash)) (targetHashes st)
        \<and> copyOne env this sourcePath (buildHashDatabase env fs sourceFiles []) st p = Inr st' \<longrightarrow>
        copiedCount st' = copiedCount st + 1 \<and> map_has (Some (JStr hash)) (targetHashes st'))
   \<and> (t \<in> set (scanAllFiles (targetDirectory this) fs) \<and> stat fs t = Inr f \<longrightarrow>
        (if truthy (cache_get (fileKey t) (theCache (loadHashCache fs (hashCacheFile this))))
             \<and> propOf (cache_get (fileKey t) (theCache (loadHashCache fs (hashCacheFile this)))) ''modTime''
                 = Some (JNum (mtime f))
         then map_has (propOf (cache_get (fileKey t) (theCache (loadHashCache fs (hashCacheFile this)))) ''hash'')
                (snd (buildTargetHashDatabase env this fs))
         else (\<forall>h. createFileFingerprint (md5 env) fs t = Inr h \<longrightarrow>
                 map_has (Some (JStr h)) (snd (buildTargetHashDatabase env this fs)))))"
proof -
  have c1: "createVideoFingerprint fs p = Inr (Some fp) \<longleftrightarrow>
      (\<exists>f. stat fs p = Inr f \<and> videoDatePattern (basename_noext p) \<and> nameHasValidDate (basename_noext p)
           \<and> fp = numberToString (fsize f) @ ''-video-'' @ take 10 (basename_noext p))"
    by (rule createVideoFingerprint_Some_iff)
  have c2: "(\<forall>fp'. createVideoFingerprint fs p \<noteq> Inr (Some fp')) \<and> g \<in> set (findDuplicatesByDateAndSize fs videoFiles)
        \<longrightarrow> p \<notin> set g"
    using undated_video_in_no_group [of fs p g videoFiles] by blast
  have c3: "videosOnly org \<and> removeDuplicates org md emptyDirs fs = Inr (fs', decisions)
        \<and> (\<forall>fp'. createVideoFingerprint fs p \<noteq> Inr (Some fp')) \<longrightarrow>
        (\<forall>d \<in> set decisions. p \<noteq> fst d \<and> p \<notin> set (snd d)) \<and> pathExists fs' p = pathExists fs p"
    using undated_video_untouched [of org md emptyDirs fs fs' decisions p] by blast
  have c4: "p \<in> set sourceFiles \<longrightarrow>
        map_get p (buildHashDatabase env fs sourceFiles []) =
          (case createFileFingerprint (md5 env) fs p of Inl e \<Rightarrow> None | Inr hash \<Rightarrow> Some hash)"
    using buildHashDatabase_get [of p sourceFiles env fs] by blast
  have c5: "p \<in> set sourceFiles \<and> createFileFingerprint (md5 env) fs p = Inr hash
        \<and> map_has (Some (JStr hash)) (targetHashes st) \<longrightarrow>
        copyOne env this sourcePath (buildHashDatabase env fs sourceFiles []) st p
          = Inr (st\<lparr>duplicatesSkipped := duplicatesSkipped st + 1\<rparr>)"
    using merge_skips_or_copies [of p sourceFiles env fs hash st this sourcePath st'] by blast
  have c6: "p \<in> set sourceFiles \<and> createFileFingerprint (md5 env) fs p = Inr hash
        \<and> \<not> map_has (Some (JStr hash)) (targetHashes st)
        \<and> copyOne env this sourcePath (buildHashDatabase env fs sourceFiles []) st p = Inr st' \<longrightarrow>
        copiedCount st' = copiedCount st + 1 \<and> map_has (Some (JStr hash)) (targetHashes st')"
    using merge_skips_or_copies [of p sourceFiles env fs hash st this sourcePath st'] by blast
  have c7: "t \<in> set (scanAllFiles (targetDirectory this) fs) \<and> stat fs t = Inr f \<longrightarrow>
        (if truthy (cache_get (fileKey t) (theCache (loadHashCache fs (hashCacheFile this))))
             \<and> propOf (cache_get (fileKey t) (theCache (loadHashCache fs (hashCacheFile this)))) ''modTime''
                 = Some (JNum (mtime f))
         then map_has (propOf (cache_get (fileKey t) (theCache (loadHashCache fs (hashCacheFile this)))) ''hash'')
                (snd (buildTargetHashDatabase env this fs))
         else (\<forall>h. createFileFingerprint (md5 env) fs t = Inr h \<longrightarrow>
                 map_has (Some (JStr h)) (snd (buildTargetHashDatabase env this fs))))"
    using buildTargetHashDatabase_index [of t this fs f env] by blast
  from c1 c2 c3 c4 c5 c6 c7 show ?thesis by (intro conjI)
qed

text \<open>Two videos of 4096 bytes, one named by the camera, one already in the target.\<close>

definition holiday_clip :: path where
  "holiday_clip = Path [''batch''] ''holiday.mp4''"

definition other_clip :: path where
  "other_clip = Path [''target'', ''2020'', ''06''] ''2020-06-24_001.mp4''"

definition clip :: "int \<Rightarrow> fileinfo" where
  "clip t = \<lparr>fsize = 4096, mtime = t, exifr_parse = ParseThrows, readJson = ParseFails\<rparr>"

definition clips :: filesystem where
  "clips = [(holiday_clip, clip 500), (other_clip, clip 900)]"

definition env_v :: run_env where
  "env_v = \<lparr>md5 = (\<lambda>e. ''d41d8cd9''), now = 2000, nowISO = ''2024-01-02T00:00:00.000Z''\<rparr>"

definition proc_v :: processor where
  "proc_v = \<lparr>targetDirectory = [''target'']\<rparr>"

definition other_indexed :: copy_state where
  "other_indexed = \<lparr>targetHashes = [(Some (JStr ''4096-no-exif''), other_clip)], files = clips,
     copiedCount = 0, duplicatesSkipped = 0, filesRenamedForConflicts = 0\<rparr>"

text \<open>
  A target that holds a video and a snapshot whose entry for it is up to date, and a
  library for the standalone pass: two dated videos of one day and one size, and a
  video of that size whose name carries no date.
\<close>

definition snapshot_v :: json where
  "snapshot_v =
     JObj [(''version'', JStr ''1.0''),
           (''lastUpdated'', JStr ''2024-01-01T00:00:00.000Z''),
           (''entries'',
            JArr [JArr [JStr ''/target/2020/06/2020-06-24_001.mp4'',
                        JObj [(''hash'', JStr ''4096-video-2020-06-24''), (''modTime'', JNum 900)]]])]"

definition snapshot_file_v :: fileinfo where
  "snapshot_file_v = \<lparr>fsize = 215, mtime = 1000, exifr_parse = ParseThrows, readJson = Parsed snapshot_v\<rparr>"

definition cached_target :: filesystem where
  "cached_target = [(other_clip, clip 900), (Path [''target''] ''.photo-organizer-cache.json'', snapshot_file_v)]"

definition dated1 :: path where "dated1 = Path [''lib''] ''2020-06-24_001.mp4''"
definition dated2 :: path where "dated2 = Path [''lib''] ''2020-06-24_002.mp4''"
definition undated :: path where "undated = Path [''lib''] ''holiday.mp4''"

definition video_library :: filesystem where
  "video_library = [(dated1, clip 100), (undated, clip 50), (dated2, clip 200)]"

definition videos_only :: organizer where
  "videos_only = \<lparr>baseDirectory = [''lib''], dryRun = False, duplicateSuffix = None, videosOnly = True\<rparr>"

theorem video_fingerprint_in_standalone_pass_only_witness:
  "createVideoFingerprint clips other_clip = Inr (Some ''4096-video-2020-06-24'')
   \<and> stat clips other_clip = Inr (clip 900)
   \<and> videoDatePattern (basename_noext other_clip) \<and> nameHasValidDate (basename_noext other_clip)
   \<and> createVideoFingerprint clips holiday_clip = Inr None
   \<and> findDuplicatesByDateAndSize clips [holiday_clip, other_clip, holiday_clip] = []
   \<and> holiday_clip \<in> set [holiday_clip, other_clip]
   \<and> createFileFingerprint (md5 env_v) clips holiday_clip = Inr ''4096-no-exif''
   \<and> map_get holiday_clip (buildHashDatabase env_v clips [holiday_clip, other_clip] []) = Some ''4096-no-exif''
   \<and> map_has (Some (JStr ''4096-no-exif'')) (targetHashes other_indexed)
   \<and> copyOne env_v proc_v [''batch''] (buildHashDatabase env_v clips [holiday_clip, other_clip] [])
         other_indexed holiday_clip
       = Inr (other_indexed\<lparr>duplicatesSkipped := duplicatesSkipped other_indexed + 1\<rparr>)
   \<and> videosOnly videos_only
   \<and> createVideoFingerprint video_library undated = Inr None
   \<and> removeDuplicates videos_only (\<lambda>e. ''d41d8cd9'') [] video_library
       = Inr ([(dated1, clip 100), (undated, clip 50)], [(dated1, [dated2])])
   \<and> pathExists [(dated1, clip 100), (undated, clip 50)] undated = pathExists video_library undated
   \<and> other_clip \<in> set (scanAllFiles (targetDirectory proc_v) cached_target)
   \<and> stat cached_target other_clip = Inr (clip 900)
   \<and> truthy (cache_get (fileKey other_clip) (theCache (loadHashCache cached_target (hashCacheFile proc_v))))
   \<and> propOf (cache_get (fileKey other_clip) (theCache (loadHashCache cached_target (hashCacheFile proc_v))))
         ''modTime'' = Some (JNum (mtime (clip 900)))
   \<and> propOf (cache_get (fileKey other_clip) (theCache (loadHashCache cached_target (hashCacheFile proc_v))))
         ''hash'' = Some (JStr ''4096-video-2020-06-24'')
   \<and> map_has (Some (JStr ''4096-video-2020-06-24'')) (snd (buildTargetHashDatabase env_v proc_v cached_target))
   \<and> createFileFingerprint (md5 env_v) cached_target other_clip = Inr ''4096-no-exif''
   \<and> snd (buildTargetHashDatabase env_v proc_v cached_target)
       = [(Some (JStr ''4096-video-2020-06-24''), other_clip),
          (Some (JStr ''215-no-exif''), Path [''target''] ''.photo-organizer-cache.json'')]"
proof -
  let ?md = "\<lambda>e :: (string \<times> json) list. ''d41d8cd9''"
  let ?c = "cache_get (fileKey other_clip) (theCache (loadHashCache cached_target (hashCacheFile proc_v)))"
  note T = video_fingerprint_in_standalone_pass_only [where fs = clips and env = env_v
      and sourceFiles = "[holiday_clip, other_clip]" and hash = "''4096-no-exif''"
      and st = other_indexed and this = proc_v and sourcePath = "[''batch'']"]
  have 1: "createVideoFingerprint clips other_clip = Inr (Some ''4096-video-2020-06-24'')" by code_simp
  have 2: "stat clips other_clip = Inr (clip 900)" by code_simp
  from T [where p = other_clip and fp = "''4096-video-2020-06-24''", THEN conjunct1] 1
  have pat: "videoDatePattern (basename_noext other_clip)"
    and val: "nameHasValidDate (basename_noext other_clip)"
    by blast+
  have 4: "createVideoFingerprint clips holiday_clip = Inr None" by code_simp
  have 5: "findDuplicatesByDateAndSize clips [holiday_clip, other_clip, holiday_clip] = []" by code_simp
  have 6: "holiday_clip \<in> set [holiday_clip, other_clip]" by simp
  have 7: "createFileFingerprint (md5 env_v) clips holiday_clip = Inr ''4096-no-exif''" by code_simp
  from T [where p = holiday_clip, THEN conjunct2, THEN conjunct2, THEN conjunct2, THEN conjunct1,
      rule_format, OF 6] 7
  have 8: "map_get holiday_clip (buildHashDatabase env_v clips [holiday_clip, other_clip] []) = Some ''4096-no-exif''"
    by simp
  have 9: "map_has (Some (JStr ''4096-no-exif'')) (targetHashes other_indexed)" by code_simp
  note 10 = T [where p = holiday_clip, THEN conjunct2, THEN conjunct2, THEN conjunct2, THEN conjunct2,
      THEN conjunct1, rule_format, OF conjI [OF 6 conjI [OF 7 9]]]
  have 11: "videosOnly videos_only" by (simp add: videos_only_def)
  have 12: "createVideoFingerprint video_library undated = Inr None" by code_simp
  then have nofp: "\<forall>fp'. createVideoFingerprint video_library undated \<noteq> Inr (Some fp')" by simp
  have 13: "removeDuplicates videos_only ?md [] video_library
       = Inr ([(dated1, clip 100), (undated, clip 50)], [(dated1, [dated2])])" by code_simp
  note S = video_fingerprint_in_standalone_pass_only [where fs = video_library and p = undated
      and org = videos_only and md = ?md and emptyDirs = "[]"
      and fs' = "[(dated1, clip 100), (undated, clip 50)]" and decisions = "[(dated1, [dated2])]",
      THEN conjunct2, THEN conjunct2, THEN conjunct1, rule_format, OF conjI [OF 11 conjI [OF 13 nofp]]]
  note 14 = S [THEN conjunct2]
  have 15: "other_clip \<in> set (scanAllFiles (targetDirectory proc_v) cached_target)" by code_simp
  have 16: "stat cached_target other_clip = Inr (clip 900)" by code_simp
  have 17: "truthy ?c" by code_simp
  have 18: "propOf ?c ''modTime'' = Some (JNum (mtime (clip 900)))" by code_simp
  have 19: "propOf ?c ''hash'' = Some (JStr ''4096-video-2020-06-24'')" by code_simp
  note U = video_fingerprint_in_standalone_pass_only [where fs = cached_target and env = env_v
      and this = proc_v and t = other_clip and f = "clip 900",
      THEN conjunct2, THEN conjunct2, THEN conjunct2, THEN conjunct2, THEN conjunct2, THEN conjunct2,
      rule_format, OF conjI [OF 15 16]]
  from U 17 18 have "map_has (propOf ?c ''hash'') (snd (buildTargetHashDatabase env_v proc_v cached_target))"
    by simp
  then have 20: "map_has (Some (JStr ''4096-video-2020-06-24''))
      (snd (buildTargetHashDatabase env_v proc_v cached_target))" unfolding 19 .
  have 21: "createFileFingerprint (md5 env_v) cached_target other_clip = Inr ''4096-no-exif''" by code_simp
  have 22: "snd (buildTargetHashDatabase env_v proc_v cached_target)
       = [(Some (JStr ''4096-video-2020-06-24''), other_clip),
          (Some (JStr ''215-no-exif''), Path [''target''] ''.photo-organizer-cache.json'')]" by code_simp
  from 1 2 pat val 4 5 6 7 8 9 10 11 12 13 14 15 16 17 18 19 20 21 22 show ?thesis by (intro conjI)
qed

text \<open>
  The merge of \<^verbatim>\<open>holiday.mp4\<close>, whose name carries no date: it has no video fingerprint,
  yet the hash database of the merge fingerprints it, and the loop skips it as a
  duplicate of another video of the same size.
\<close>

theorem undated_video_is_fingerprinted_by_the_merge:
  "extractDateFromFilename holiday_clip = None
   \<and> createVideoFingerprint clips holiday_clip = Inr None
   \<and> buildHashDatabase env_v clips [holiday_clip] [] = [(holiday_clip, ''4096-no-exif'')]
   \<and> createFileFingerprint (md5 env_v) clips other_clip = Inr ''4096-no-exif''
   \<and> copyOne env_v proc_v [''batch''] [(holiday_clip, ''4096-no-exif'')] other_indexed holiday_clip
       = Inr (other_indexed\<lparr>duplicatesSkipped := 1\<rparr>)"
proof -
  have 1: "extractDateFromFilename holiday_clip = None" by code_simp
  have 2: "createVideoFingerprint clips holiday_clip = Inr None" by code_simp
  have 3: "buildHashDatabase env_v clips [holiday_clip] [] = [(holiday_clip, ''4096-no-exif'')]" by code_simp
  have 4: "createFileFingerprint (md5 env_v) clips other_clip = Inr ''4096-no-exif''" by code_simp
  have 5: "copyOne env_v proc_v [''batch''] [(holiday_clip, ''4096-no-exif'')] other_indexed holiday_clip
       = Inr (other_indexed\<lparr>duplicatesSkipped := 1\<rparr>)" by code_simp
  from 1 2 3 4 5 show ?thesis by (intro conjI)
qed

end
